theory Spec2Isabelle
  imports Complex_Main
begin

section \<open>The shift scheduler: data model\<close>

text \<open>
  A shallow embedding of \<^verbatim>\<open>generateSchedule\<close> and \<^verbatim>\<open>assignManual\<close> of
  \<^verbatim>\<open>src/ShiftSchedulerApp.tsx\<close>. Employee ids are opaque, so the model is polymorphic in
  their type. JavaScript numbers that hold integers are \<open>int\<close>; the weights, which the code
  computes in double precision, are exact rationals here (every statement below either does not
  depend on the weights at all or depends only on a weight being zero or positive).
\<close>

datatype preference = Day | Night | Neither

datatype shift = DayShift | NightShift

record 'id employee =
  id_emp :: 'id
  name :: string
  preference :: preference
  desiredShifts :: int
  isReserve :: bool

text \<open>
  The argument of \<^verbatim>\<open>generateSchedule\<close>. \<open>seedIn\<close> is optional in the source
  (\<^verbatim>\<open>seedIn ?? Math.floor(Math.random() * 4294967296)\<close>); the other optional fields
  are given explicitly (the source's defaults are 5, 5, true, false, false).
\<close>

record 'id params =
  employees :: "'id employee list"
  year :: int
  monthIndex0 :: int
  daySlots :: int
  nightSlots :: int
  enforceNoMorningAfterNight :: bool
  weeklyCap :: int
  maxStreak :: int
  spreadEnabled :: bool
  useReservesAuto :: bool
  seedIn :: "int option"
  hardFill :: bool

text \<open>
  A date string \<^verbatim>\<open>YYYY-MM-DD\<close> is kept as its three numbers. Within one run the year and
  the month are fixed, so two date strings are equal exactly when the triples are.
\<close>

type_synonym date = "int \<times> int \<times> int"

text \<open>The mutable trackers of one run, with the generator's seed.\<close>

record 'id tracking =
  assignedCount :: "'id \<Rightarrow> int"
  lastNightOn :: "'id \<Rightarrow> date option"
  lastWorkedOn :: "'id \<Rightarrow> date option"
  streak :: "'id \<Rightarrow> int"
  workedOnDay :: "'id \<Rightarrow> int set"
  weekCount :: "'id \<Rightarrow> int \<Rightarrow> int"
  seed :: int

text \<open>
  The violation texts of the eligibility evaluator, in the order of the source:
  \<^verbatim>\<open>already on other shift today\<close>, \<^verbatim>\<open>>N-day streak\<close>, \<^verbatim>\<open>morning after night\<close>,
  \<^verbatim>\<open>weekly cap N\<close>, \<^verbatim>\<open>N-day consecutive limit reached\<close>, and the diagnostic-only
  \<^verbatim>\<open>hard ceiling (others under target)\<close>.
\<close>

datatype reason =
  AlreadyOnOtherShift
  | StreakOver int
  | MorningAfterNight
  | WeeklyCapReached int
  | ConsecutiveLimit int
  | HardCeiling

record relax =
  ignoreWeeklyCap :: bool
  ignoreStreak :: bool

definition noRelax :: relax where
  "noRelax = \<lparr>ignoreWeeklyCap = False, ignoreStreak = False\<rparr>"

text \<open>
  One Assignment Row. An issue line \<^verbatim>\<open>Insufficient eligible staff: r1 (n1), r2 (n2)\<close> is
  kept as the list of its (reason, count) pairs.
\<close>

record 'id row =
  date :: date
  dayIds :: "'id list"
  nightIds :: "'id list"
  dayMissing :: int
  nightMissing :: int
  dayIssues :: "(reason \<times> int) list list"
  nightIssues :: "(reason \<times> int) list list"

record meta =
  totalDemand :: int
  sumDesiredPrimaries :: int
  allowReservesInNormal :: bool

record 'id schedule =
  days :: "'id row list"
  meta :: meta

section \<open>Calendar\<close>

text \<open>
  \<^verbatim>\<open>new Date(y, m, d)\<close> reads a year from 0 to 99 as 1900 + y and carries a month index
  outside 0..11 into the year. \<^verbatim>\<open>daysInMonth(y, m0)\<close> is the day number of day 0 of
  month \<open>m0 + 1\<close>, that is the length of month \<open>m0\<close>. The model is the calendar of
  every year; a \<^verbatim>\<open>Date\<close> exists only within about 275000 years of 1970, and beyond
  them the source counts no days.
\<close>

definition jsYear :: "int \<Rightarrow> int" where
  "jsYear y = (if 0 \<le> y \<and> y \<le> 99 then 1900 + y else y)"

definition isLeap :: "int \<Rightarrow> bool" where
  "isLeap y = (y mod 4 = 0 \<and> (y mod 100 \<noteq> 0 \<or> y mod 400 = 0))"

definition monthLength :: "int \<Rightarrow> int \<Rightarrow> int" where
  "monthLength y m =
     (if m = 1 then (if isLeap y then 29 else 28)
      else if m = 3 \<or> m = 5 \<or> m = 8 \<or> m = 10 then 30 else 31)"

definition daysInMonth :: "int \<Rightarrow> int \<Rightarrow> int" where
  "daysInMonth y m0 = monthLength (jsYear y + m0 div 12) (m0 mod 12)"

text \<open>Days from 1970-01-01 to the first of month \<open>m\<close> (0..11) of year \<open>y\<close>.\<close>

definition daysFromCivil :: "int \<Rightarrow> int \<Rightarrow> int" where
  "daysFromCivil y m =
     (let y' = (if m \<le> 1 then y - 1 else y);
          era = y' div 400;
          yoe = y' - era * 400;
          mp = (m + 10) mod 12;
          doy = (153 * mp + 2) div 5;
          doe = yoe * 365 + yoe div 4 - yoe div 100 + doy
      in era * 146097 + doe - 719468)"

text \<open>\<^verbatim>\<open>new Date(year, monthIndex0, 1).getDay()\<close>, 0 = Sunday.\<close>

definition firstWeekday :: "int \<Rightarrow> int \<Rightarrow> int" where
  "firstWeekday y m0 = (daysFromCivil (jsYear y + m0 div 12) (m0 mod 12) + 4) mod 7"

definition ymd :: "int \<Rightarrow> int \<Rightarrow> int \<Rightarrow> date" where
  "ymd y m0 d = (let dim = daysInMonth y m0; day = min dim (max 1 d) in (y, m0 + 1, day))"

section \<open>The deterministic sequence generator\<close>

text \<open>
  JavaScript's \<^verbatim>\<open>%\<close> truncates: the result has the sign of the dividend. The arithmetic
  is exact in double precision as long as the seed is below \<open>2 ^ 32\<close> in absolute value.
\<close>

definition jsRem :: "int \<Rightarrow> int \<Rightarrow> int" where
  "jsRem a m = sgn a * (\<bar>a\<bar> mod \<bar>m\<bar>)"

definition rng :: "int \<Rightarrow> rat \<times> int" where
  "rng s = (let s' = jsRem (s * 1664525 + 1013904223) 4294967296
            in (of_int s' / 4294967296, s'))"

text \<open>The state of the generator after \<open>n\<close> draws from the seed \<open>s\<close>.\<close>

fun rngState :: "nat \<Rightarrow> int \<Rightarrow> int" where
  "rngState 0 s = s"
| "rngState (Suc n) s = snd (rng (rngState n s))"

fun scanPick :: "'a list \<Rightarrow> rat list \<Rightarrow> rat \<Rightarrow> 'a option" where
  "scanPick (x # xs) (w # ws) r = (if r - w \<le> 0 then Some x else scanPick xs ws (r - w))"
| "scanPick _ _ _ = None"

text \<open>
  \<^verbatim>\<open>randomPickWeighted(items, weights, rng)\<close>, with the seed passed and returned. No number
  is drawn when the total is not positive. The callers pass as many weights as items.
\<close>

definition randomPickWeighted :: "'a list \<Rightarrow> rat list \<Rightarrow> int \<Rightarrow> 'a option \<times> int" where
  "randomPickWeighted items weights s =
     (let total = sum_list weights in
      if total \<le> 0 then (None, s)
      else (let (u, s') = rng s; r = u * total in
            (case scanPick items weights r of
               Some x \<Rightarrow> (Some x, s')
             | None \<Rightarrow> (if items = [] then (None, s') else (Some (last items), s')))))"

section \<open>Trackers, eligibility and weights\<close>

definition dInM :: "'id params \<Rightarrow> int" where
  "dInM p = daysInMonth (year p) (monthIndex0 p)"

definition primaries :: "'id params \<Rightarrow> 'id employee list" where
  "primaries p = filter (\<lambda>e. \<not> isReserve e) (employees p)"

definition reserves :: "'id params \<Rightarrow> 'id employee list" where
  "reserves p = filter isReserve (employees p)"

definition desiredOf :: "'id employee \<Rightarrow> int" where
  "desiredOf e = max 0 (desiredShifts e)"

definition totalDemandOf :: "'id params \<Rightarrow> int" where
  "totalDemandOf p = dInM p * (max 0 (daySlots p) + max 0 (nightSlots p))"

definition sumDesiredPrimariesOf :: "'id params \<Rightarrow> int" where
  "sumDesiredPrimariesOf p = foldl (\<lambda>s e. s + max 0 (desiredShifts e)) 0 (primaries p)"

definition allowReservesInNormalOf :: "'id params \<Rightarrow> bool" where
  "allowReservesInNormalOf p = (useReservesAuto p \<and> sumDesiredPrimariesOf p \<ge> totalDemandOf p)"

definition weeksInMonth :: "'id params \<Rightarrow> int" where
  "weeksInMonth p =
     \<lceil>(of_int (firstWeekday (year p) (monthIndex0 p) + dInM p) :: rat) / 7\<rceil>"

definition dayToWeekIdx :: "'id params \<Rightarrow> int \<Rightarrow> int" where
  "dayToWeekIdx p dayNum = (firstWeekday (year p) (monthIndex0 p) + (dayNum - 1)) div 7"

definition initTracking :: "int \<Rightarrow> 'id tracking" where
  "initTracking s =
     \<lparr>assignedCount = (\<lambda>_. 0), lastNightOn = (\<lambda>_. None), lastWorkedOn = (\<lambda>_. None),
      streak = (\<lambda>_. 0), workedOnDay = (\<lambda>_. {}), weekCount = (\<lambda>_ _. 0), seed = s\<rparr>"

definition windowCount :: "'id tracking \<Rightarrow> 'id \<Rightarrow> int \<Rightarrow> int \<Rightarrow> int" where
  "windowCount st i dayNum window =
     int (length (filter (\<lambda>d. d \<in> workedOnDay st i)
                         [max 1 (dayNum - (window - 1)) .. dayNum - 1]))"

text \<open>
  \<^verbatim>\<open>updateOnAssign\<close>. The source parses the previous date and takes the difference in days
  to today; both dates lie in the month of the run, so the difference is that of the day
  numbers. This holds for a year and a month number that print without a minus sign (a year
  from 0 and a month index from -1); for others the source's \<^verbatim>\<open>split("-")\<close> misreads
  the date and the streak stays 1.
\<close>

definition updateOnAssign ::
  "'id params \<Rightarrow> 'id \<Rightarrow> date \<Rightarrow> int \<Rightarrow> shift \<Rightarrow> 'id tracking \<Rightarrow> 'id tracking" where
  "updateOnAssign p i dt dayNum shiftName st =
     (let newStreak =
            (case lastWorkedOn st i of
               None \<Rightarrow> 1
             | Some (pY, pM, pD) \<Rightarrow> (if dayNum - pD = 1 then streak st i + 1 else 1));
          w = dayToWeekIdx p dayNum
      in st\<lparr>streak := (streak st)(i := newStreak),
            lastWorkedOn := (lastWorkedOn st)(i := Some dt),
            workedOnDay := (workedOnDay st)(i := insert dayNum (workedOnDay st i)),
            lastNightOn := (if shiftName = NightShift then (lastNightOn st)(i := Some dt)
                            else lastNightOn st),
            assignedCount := (assignedCount st)(i := assignedCount st i + 1),
            weekCount := (weekCount st)(i := (weekCount st i)(w := weekCount st i w + 1))\<rparr>)"

definition prefWeight :: "'id employee \<Rightarrow> shift \<Rightarrow> rat" where
  "prefWeight e sh =
     (if preference e = Neither then 8 / 10
      else if sh = DayShift then (if preference e = Day then 1 else 0)
      else (if preference e = Night then 1 else 0))"

definition fairness :: "'id tracking \<Rightarrow> 'id employee \<Rightarrow> rat" where
  "fairness st e = 1 / (1 + of_int (assignedCount st (id_emp e)))"

definition workedYday :: "'id tracking \<Rightarrow> 'id \<Rightarrow> int \<Rightarrow> bool" where
  "workedYday st i dayNum = (dayNum - 1 \<in> workedOnDay st i)"

definition restBias :: "'id tracking \<Rightarrow> 'id employee \<Rightarrow> int \<Rightarrow> rat" where
  "restBias st e dayNum = (if workedYday st (id_emp e) dayNum then 1 / 2 else 1)"

definition spreadBias :: "'id params \<Rightarrow> 'id tracking \<Rightarrow> 'id employee \<Rightarrow> int \<Rightarrow> rat" where
  "spreadBias p st e dayNum =
     (if \<not> spreadEnabled p then 1
      else (let w = dayToWeekIdx p dayNum; desired = desiredOf e in
            if desired = 0 then 1
            else (let targetPerWeek = (of_int desired :: rat) / of_int (max 1 (weeksInMonth p));
                      current = weekCount st (id_emp e) w in
                  if current < \<lfloor>targetPerWeek\<rfloor> then 12 / 10
                  else if current > \<lceil>targetPerWeek\<rceil> then 7 / 10
                  else 1)))"

definition consecutiveBias :: "'id params \<Rightarrow> 'id tracking \<Rightarrow> 'id employee \<Rightarrow> rat" where
  "consecutiveBias p st e =
     (let currentStreak = streak st (id_emp e);
          desired = desiredOf e;
          assigned = assignedCount st (id_emp e) in
      if currentStreak = 0 then 12 / 10
      else if currentStreak \<ge> 1 \<and> currentStreak < maxStreak p then 11 / 10
      else if currentStreak \<ge> maxStreak p then 0
      else (let remaining = max 0 (desired - assigned) in
            if remaining \<le> 2 \<and> currentStreak \<ge> 1 then 13 / 10 else 1))"

definition desiredBias :: "'id tracking \<Rightarrow> 'id employee \<Rightarrow> rat" where
  "desiredBias st e =
     (let desired = desiredOf e; cnt = assignedCount st (id_emp e) in
      if desired = 0 then 9 / 10
      else (let remain = max 0 (desired - cnt) in
            if remain > 0
            then 16 / 10 + min (12 / 10) (of_int remain / max 2 (of_int desired * (1 / 2)))
            else (if cnt = desired then 1 / 2 else 1 / 4)))"

definition eligibilityReasons ::
  "'id params \<Rightarrow> 'id tracking \<Rightarrow> 'id employee \<Rightarrow> shift \<Rightarrow> int \<Rightarrow> 'id list \<Rightarrow> relax
   \<Rightarrow> reason list" where
  "eligibilityReasons p st cand sh dayNum dayAlreadyPicked rl =
     (if id_emp cand \<in> set dayAlreadyPicked then [AlreadyOnOtherShift] else [])
     @ (if \<not> ignoreStreak rl \<and> streak st (id_emp cand) \<ge> maxStreak p
        then [StreakOver (maxStreak p)] else [])
     @ (if sh = DayShift \<and> enforceNoMorningAfterNight p
           \<and> lastNightOn st (id_emp cand) = Some (ymd (year p) (monthIndex0 p) (dayNum - 1))
        then [MorningAfterNight] else [])
     @ (if \<not> ignoreWeeklyCap rl \<and> windowCount st (id_emp cand) dayNum 7 \<ge> weeklyCap p
        then [WeeklyCapReached (weeklyCap p)] else [])
     @ (if streak st (id_emp cand) \<ge> maxStreak p then [ConsecutiveLimit (maxStreak p)] else [])"

definition eligible ::
  "'id params \<Rightarrow> 'id tracking \<Rightarrow> 'id employee \<Rightarrow> shift \<Rightarrow> int \<Rightarrow> 'id list \<Rightarrow> relax \<Rightarrow> bool" where
  "eligible p st cand sh dayNum dayAlreadyPicked rl =
     (eligibilityReasons p st cand sh dayNum dayAlreadyPicked rl = [])"

text \<open>
  \<^verbatim>\<open>weightFor\<close> returns before drawing the jitter when the hard ceiling applies; otherwise
  it draws one number. The result is the weight and the tracker with the new seed.
\<close>

definition weightFor ::
  "'id params \<Rightarrow> 'id tracking \<Rightarrow> 'id employee \<Rightarrow> shift \<Rightarrow> int \<Rightarrow> bool \<Rightarrow> rat \<times> 'id tracking" where
  "weightFor p st e sh dayNum underTargetExistsGlobally =
     (if underTargetExistsGlobally \<and> assignedCount st (id_emp e) \<ge> desiredOf e then (0, st)
      else (let (u, s') = rng (seed st) in
            (max 0 (prefWeight e sh * desiredBias st e * fairness st e * restBias st e dayNum
                    * spreadBias p st e dayNum * consecutiveBias p st e * (95 / 100 + u * (1 / 10))),
             st\<lparr>seed := s'\<rparr>)))"

fun weightsFor ::
  "'id params \<Rightarrow> 'id tracking \<Rightarrow> 'id employee list \<Rightarrow> shift \<Rightarrow> int \<Rightarrow> bool
   \<Rightarrow> rat list \<times> 'id tracking" where
  "weightsFor p st [] sh dayNum u = ([], st)"
| "weightsFor p st (e # es) sh dayNum u =
     (let (w, st1) = weightFor p st e sh dayNum u;
          (ws, st2) = weightsFor p st1 es sh dayNum u
      in (w # ws, st2))"

section \<open>The strict fill pass\<close>

lemma scanPick_member: "scanPick xs ws r = Some x \<Longrightarrow> x \<in> set xs"
  by (induction xs ws r rule: scanPick.induct) (auto split: if_splits)

lemma randomPickWeighted_member:
  "randomPickWeighted items weights s = (Some x, s') \<Longrightarrow> x \<in> set items"
  by (auto simp: randomPickWeighted_def Let_def scanPick_member
           split: if_splits prod.splits option.splits)

text \<open>
  The \<^verbatim>\<open>while\<close> loop of \<^verbatim>\<open>tryPool\<close>. Its state is the tracker, the picks of this shift
  and \<^verbatim>\<open>dayAlreadyPicked\<close>; \<open>u\<close> is \<^verbatim>\<open>underTargetExistsGlobally\<close>, computed once
  before the loop. Every round removes the drawn candidate from \<open>available\<close>.
\<close>

function tryLoop ::
  "'id params \<Rightarrow> int \<Rightarrow> shift \<Rightarrow> int \<Rightarrow> bool \<Rightarrow> 'id employee list \<Rightarrow> 'id tracking
   \<Rightarrow> 'id list \<Rightarrow> 'id list \<Rightarrow> 'id tracking \<times> 'id list \<times> 'id list" where
  "tryLoop p needed sh day u available st picks dap =
     (if int (length picks) < needed \<and> available \<noteq> [] then
        (case weightsFor p st available sh day u of (weights, st1) \<Rightarrow>
         (case randomPickWeighted available weights (seed st1) of
            (None, s') \<Rightarrow> (st1\<lparr>seed := s'\<rparr>, picks, dap)
          | (Some e, s') \<Rightarrow>
              (if u \<and> assignedCount st1 (id_emp e) \<ge> desiredOf e
               then tryLoop p needed sh day u
                      (filter (\<lambda>x. id_emp x \<noteq> id_emp e) available)
                      (st1\<lparr>seed := s'\<rparr>) picks dap
               else tryLoop p needed sh day u
                      (filter (\<lambda>x. id_emp x \<noteq> id_emp e) available)
                      (updateOnAssign p (id_emp e) (ymd (year p) (monthIndex0 p) day) day sh
                         (st1\<lparr>seed := s'\<rparr>))
                      (picks @ [id_emp e]) (dap @ [id_emp e]))))
      else (st, picks, dap))"
  by pat_completeness auto
termination
proof (relation "measure (\<lambda>(p, needed, sh, day, u, available, st, picks, dap). length available)")
  show "wf (measure (\<lambda>(p :: 'id params, needed :: int, sh :: shift, day :: int, u :: bool,
                       available :: 'id employee list, st :: 'id tracking, picks :: 'id list,
                       dap :: 'id list). length available))"
    by simp
qed (auto dest!: randomPickWeighted_member[OF sym] intro!: length_filter_less)

definition underTargetExists ::
  "'id params \<Rightarrow> 'id tracking \<Rightarrow> 'id employee list \<Rightarrow> shift \<Rightarrow> int \<Rightarrow> 'id list \<Rightarrow> bool" where
  "underTargetExists p st pool sh day dap =
     list_ex (\<lambda>e. assignedCount st (id_emp e) < desiredOf e \<and> eligible p st e sh day dap noRelax)
             pool"

definition allAllowed :: "'id params \<Rightarrow> 'id employee list \<Rightarrow> 'id employee list \<Rightarrow> 'id employee list" where
  "allAllowed p primaryPool reservePool =
     (if allowReservesInNormalOf p then primaryPool @ reservePool else primaryPool)"

definition tryPool ::
  "'id params \<Rightarrow> int \<Rightarrow> shift \<Rightarrow> int \<Rightarrow> 'id employee list \<Rightarrow> 'id employee list
   \<Rightarrow> 'id employee list \<Rightarrow> 'id tracking \<times> 'id list \<times> 'id list
   \<Rightarrow> 'id tracking \<times> 'id list \<times> 'id list" where
  "tryPool p needed sh day primaryPool reservePool pool x =
     (case x of (st, picks, dap) \<Rightarrow>
        tryLoop p needed sh day
          (underTargetExists p st (allAllowed p primaryPool reservePool) sh day dap)
          (filter (\<lambda>e. eligible p st e sh day dap noRelax) pool)
          st picks dap)"

fun bumpReason :: "reason \<Rightarrow> (reason \<times> int) list \<Rightarrow> (reason \<times> int) list" where
  "bumpReason r [] = [(r, 1)]"
| "bumpReason r ((k, v) # kvs) = (if k = r then (k, v + 1) # kvs else (k, v) # bumpReason r kvs)"

definition candidateReasons ::
  "'id params \<Rightarrow> 'id tracking \<Rightarrow> 'id employee list \<Rightarrow> shift \<Rightarrow> int \<Rightarrow> 'id list
   \<Rightarrow> 'id employee \<Rightarrow> reason list" where
  "candidateReasons p st pools sh day dap cand =
     eligibilityReasons p st cand sh day dap noRelax
     @ (if underTargetExists p st pools sh day dap \<and> assignedCount st (id_emp cand) \<ge> desiredOf cand
        then [HardCeiling] else [])"

definition issuesFor ::
  "'id params \<Rightarrow> 'id tracking \<Rightarrow> int \<Rightarrow> shift \<Rightarrow> int \<Rightarrow> 'id employee list \<Rightarrow> 'id employee list
   \<Rightarrow> 'id list \<Rightarrow> 'id list \<Rightarrow> (reason \<times> int) list list" where
  "issuesFor p st needed sh day primaryPool reservePool picks dap =
     (if int (length picks) < needed then
        (let pools = allAllowed p primaryPool reservePool;
             reasonCounts =
               foldl (\<lambda>rc cand. foldl (\<lambda>rc r. bumpReason r rc) rc
                                   (candidateReasons p st pools sh day dap cand)) [] pools
         in if reasonCounts = [] then [] else [reasonCounts])
      else [])"

text \<open>\<^verbatim>\<open>pickShift\<close>: primaries first, then the reserves if the policy admits them.\<close>

definition pickShift ::
  "'id params \<Rightarrow> int \<Rightarrow> int \<Rightarrow> shift \<Rightarrow> 'id employee list \<Rightarrow> 'id employee list \<Rightarrow> 'id list
   \<Rightarrow> 'id tracking \<Rightarrow> 'id tracking \<times> 'id list \<times> int \<times> (reason \<times> int) list list" where
  "pickShift p day needed sh primaryPool reservePool dayAlreadyPicked st =
     (case tryPool p needed sh day primaryPool reservePool primaryPool (st, [], dayAlreadyPicked) of
        (st1, picks1, dap1) \<Rightarrow>
     (case (if allowReservesInNormalOf p \<and> int (length picks1) < needed
            then tryPool p needed sh day primaryPool reservePool reservePool (st1, picks1, dap1)
            else (st1, picks1, dap1)) of
        (st2, picks2, dap2) \<Rightarrow>
          (st2, picks2, max 0 (needed - int (length picks2)),
           issuesFor p st2 needed sh day primaryPool reservePool picks2 dap2)))"

definition strictDay :: "'id params \<Rightarrow> int \<Rightarrow> 'id tracking \<Rightarrow> 'id tracking \<times> 'id row" where
  "strictDay p day st =
     (case pickShift p day (max 0 (daySlots p)) DayShift (primaries p) (reserves p) [] st of
        (st1, dpicks, dmiss, diss) \<Rightarrow>
     (case pickShift p day (max 0 (nightSlots p)) NightShift (primaries p) (reserves p) dpicks st1 of
        (st2, npicks, nmiss, niss) \<Rightarrow>
          (st2, \<lparr>date = ymd (year p) (monthIndex0 p) day, dayIds = dpicks, nightIds = npicks,
                 dayMissing = dmiss, nightMissing = nmiss, dayIssues = diss, nightIssues = niss\<rparr>)))"

fun strictPass :: "'id params \<Rightarrow> int list \<Rightarrow> 'id tracking \<Rightarrow> 'id tracking \<times> 'id row list" where
  "strictPass p [] st = (st, [])"
| "strictPass p (d # ds) st =
     (case strictDay p d st of (st1, r) \<Rightarrow>
      (case strictPass p ds st1 of (st2, rs) \<Rightarrow> (st2, r # rs)))"

section \<open>The hard-fill pass\<close>

definition idsOf :: "shift \<Rightarrow> 'id row \<Rightarrow> 'id list" where
  "idsOf sh r = (if sh = DayShift then dayIds r else nightIds r)"

definition otherShift :: "shift \<Rightarrow> shift" where
  "otherShift sh = (if sh = DayShift then NightShift else DayShift)"

definition missingOf :: "shift \<Rightarrow> 'id row \<Rightarrow> int" where
  "missingOf sh r = (if sh = DayShift then dayMissing r else nightMissing r)"

definition pushId :: "shift \<Rightarrow> 'id \<Rightarrow> 'id row \<Rightarrow> 'id row" where
  "pushId sh i r = (if sh = DayShift then r\<lparr>dayIds := dayIds r @ [i]\<rparr>
                    else r\<lparr>nightIds := nightIds r @ [i]\<rparr>)"

text \<open>
  The comparator of \<^verbatim>\<open>order.sort\<close>: larger remaining desired first, then fewer assigned.
  \<^verbatim>\<open>Array.prototype.sort\<close> is stable, so the sort is a stable insertion sort here.
\<close>

definition needCmp :: "'id tracking \<Rightarrow> 'id employee \<Rightarrow> 'id employee \<Rightarrow> int" where
  "needCmp st a b =
     (let ra = desiredOf a - assignedCount st (id_emp a);
          rb = desiredOf b - assignedCount st (id_emp b)
      in if rb \<noteq> ra then rb - ra
         else assignedCount st (id_emp a) - assignedCount st (id_emp b))"

fun insertBy :: "('a \<Rightarrow> 'a \<Rightarrow> int) \<Rightarrow> 'a \<Rightarrow> 'a list \<Rightarrow> 'a list" where
  "insertBy cmp x [] = [x]"
| "insertBy cmp x (y # ys) = (if cmp x y \<le> 0 then x # y # ys else y # insertBy cmp x ys)"

definition sortBy :: "('a \<Rightarrow> 'a \<Rightarrow> int) \<Rightarrow> 'a list \<Rightarrow> 'a list" where
  "sortBy cmp xs = foldr (insertBy cmp) xs []"

text \<open>
  \<^verbatim>\<open>pickStage(relax)\<close> on row \<open>dayIdx\<close>: \<open>None\<close> is the source's \<^verbatim>\<open>false\<close>, \<open>Some\<close> the
  tracker and the rows after the assignment.
\<close>

definition pickStage ::
  "'id params \<Rightarrow> nat \<Rightarrow> shift \<Rightarrow> relax \<Rightarrow> 'id tracking \<times> 'id row list
   \<Rightarrow> ('id tracking \<times> 'id row list) option" where
  "pickStage p dayIdx sh rl x =
     (case x of (st, rows) \<Rightarrow>
      (let r = rows ! dayIdx;
           dayNum = int dayIdx + 1;
           already = idsOf sh r;
           other = idsOf (otherShift sh) r;
           pools = primaries p @ reserves p;
           under = filter (\<lambda>e. assignedCount st (id_emp e) < desiredOf e) pools;
           order = filter (\<lambda>e. id_emp e \<notin> set already \<and> id_emp e \<notin> set other
                               \<and> eligible p st e sh dayNum (already @ other) rl)
                          (if under \<noteq> [] then under else pools)
       in case sortBy (needCmp st) order of
            [] \<Rightarrow> None
          | chosen # _ \<Rightarrow>
              Some (updateOnAssign p (id_emp chosen) (date r) dayNum sh st,
                    rows[dayIdx := pushId sh (id_emp chosen) r])))"

definition setMissing :: "'id params \<Rightarrow> shift \<Rightarrow> 'id row \<Rightarrow> 'id row" where
  "setMissing p sh r =
     (if sh = DayShift then r\<lparr>dayMissing := max 0 (daySlots p - int (length (dayIds r)))\<rparr>
      else r\<lparr>nightMissing := max 0 (nightSlots p - int (length (nightIds r)))\<rparr>)"

definition fillSlot ::
  "'id params \<Rightarrow> nat \<Rightarrow> shift \<Rightarrow> 'id tracking \<times> 'id row list \<Rightarrow> 'id tracking \<times> 'id row list" where
  "fillSlot p dayIdx sh x =
     (case (case pickStage p dayIdx sh noRelax x of
              Some y \<Rightarrow> y
            | None \<Rightarrow>
                (case pickStage p dayIdx sh \<lparr>ignoreWeeklyCap = True, ignoreStreak = False\<rparr> x of
                   Some y \<Rightarrow> y
                 | None \<Rightarrow>
                     (case pickStage p dayIdx sh \<lparr>ignoreWeeklyCap = True, ignoreStreak = True\<rparr> x of
                        Some y \<Rightarrow> y
                      | None \<Rightarrow> x))) of
        (st, rows) \<Rightarrow> (st, rows[dayIdx := setMissing p sh (rows ! dayIdx)]))"

text \<open>
  \<^verbatim>\<open>while (row.dayMissing > 0) fillSlot(idx, "day")\<close> and its night twin. The loop has no
  bound in the source, so it is a partial function: \<open>None\<close> means that it does not return.
\<close>

partial_function (option) fillWhile ::
  "'id params \<Rightarrow> nat \<Rightarrow> shift \<Rightarrow> 'id tracking \<times> 'id row list
   \<Rightarrow> ('id tracking \<times> 'id row list) option" where
  "fillWhile p dayIdx sh x =
     (if missingOf sh (snd x ! dayIdx) > 0 then fillWhile p dayIdx sh (fillSlot p dayIdx sh x)
      else Some x)"

declare fillWhile.simps [code]

fun hardFillRows ::
  "'id params \<Rightarrow> nat list \<Rightarrow> 'id tracking \<times> 'id row list
   \<Rightarrow> ('id tracking \<times> 'id row list) option" where
  "hardFillRows p [] x = Some x"
| "hardFillRows p (i # is) x =
     (case fillWhile p i DayShift x of
        None \<Rightarrow> None
      | Some x1 \<Rightarrow>
          (case fillWhile p i NightShift x1 of
             None \<Rightarrow> None
           | Some x2 \<Rightarrow> hardFillRows p is x2))"

section \<open>The generator\<close>

definition metaOf :: "'id params \<Rightarrow> meta" where
  "metaOf p = \<lparr>totalDemand = totalDemandOf p, sumDesiredPrimaries = sumDesiredPrimariesOf p,
               allowReservesInNormal = allowReservesInNormalOf p\<rparr>"

text \<open>
  \<open>entropy\<close> stands for \<^verbatim>\<open>Math.floor(Math.random() * 4294967296)\<close>, which the source
  evaluates only when no seed is given. \<open>None\<close> means that the call does not return.
\<close>

definition generateSchedule :: "'id params \<Rightarrow> int \<Rightarrow> 'id schedule option" where
  "generateSchedule p entropy =
     (let s0 = (case seedIn p of Some s \<Rightarrow> s | None \<Rightarrow> entropy);
          x = strictPass p [1 .. dInM p] (initTracking s0)
      in if hardFill p
         then (case hardFillRows p [0 ..< length (snd x)] x of
                 None \<Rightarrow> None
               | Some (st, rows) \<Rightarrow> Some \<lparr>days = rows, meta = metaOf p\<rparr>)
         else Some \<lparr>days = snd x, meta = metaOf p\<rparr>)"

section \<open>Manual override\<close>

definition assignManualRow :: "date \<Rightarrow> shift \<Rightarrow> 'id \<Rightarrow> 'id row \<Rightarrow> 'id row" where
  "assignManualRow dt sh employeeId r =
     (if date r \<noteq> dt then r
      else if employeeId \<in> set (idsOf (otherShift sh) r) then r
      else if sh = DayShift
           then r\<lparr>dayIds := dayIds r @ [employeeId], dayMissing := max 0 (dayMissing r - 1)\<rparr>
           else r\<lparr>nightIds := nightIds r @ [employeeId],
                  nightMissing := max 0 (nightMissing r - 1)\<rparr>)"

definition assignManual :: "date \<Rightarrow> shift \<Rightarrow> 'id \<Rightarrow> 'id schedule \<Rightarrow> 'id schedule" where
  "assignManual dt sh employeeId prev = prev\<lparr>days := map (assignManualRow dt sh employeeId) (days prev)\<rparr>"

section \<open>Basic facts\<close>

declare tryLoop.simps [simp del]

lemma jsRem_nonneg: "0 \<le> a \<Longrightarrow> jsRem a m = a mod \<bar>m\<bar>"
  by (cases "a = 0") (simp_all add: jsRem_def)

lemma windowCount_card:
  "windowCount st i d w =
     int (card {x \<in> workedOnDay st i. max 1 (d - (w - 1)) \<le> x \<and> x \<le> d - 1})"
proof -
  let ?xs = "filter (\<lambda>x. x \<in> workedOnDay st i) [max 1 (d - (w - 1)) .. d - 1]"
  have "distinct ?xs" by simp
  then have "card (set ?xs) = length ?xs" by (rule distinct_card)
  moreover have "set ?xs = {x \<in> workedOnDay st i. max 1 (d - (w - 1)) \<le> x \<and> x \<le> d - 1}"
    by auto
  ultimately show ?thesis by (simp add: windowCount_def)
qed

lemma streak_limit_blocks:
  "maxStreak p \<le> streak st (id_emp cand) \<Longrightarrow> \<not> eligible p st cand sh d dap rl"
  by (simp add: eligible_def eligibilityReasons_def)

lemma strictPass_hd: "a \<le> b \<Longrightarrow> hd (snd (strictPass p [a..b] st)) = snd (strictDay p a st)"
  by (simp add: upto_rec1 split: prod.splits)

lemma consecutiveBias_never_finishing: "consecutiveBias p st e \<noteq> 13 / 10"
  by (simp add: consecutiveBias_def Let_def)

section \<open>Eligibility\<close>

definition pElig :: "string params" where
  "pElig = \<lparr>employees = [\<lparr>id_emp = ''e1'', name = ''A'', preference = Day, desiredShifts = 10,
                           isReserve = False\<rparr>],
            year = 2025, monthIndex0 = 0, daySlots = 1, nightSlots = 1,
            enforceNoMorningAfterNight = True, weeklyCap = 5, maxStreak = 5,
            spreadEnabled = True, useReservesAuto = False, seedIn = Some 42, hardFill = True\<rparr>"

definition eA :: "string employee" where
  "eA = \<lparr>id_emp = ''e1'', name = ''A'', preference = Day, desiredShifts = 10, isReserve = False\<rparr>"

text \<open>The tracker after \<open>e1\<close> has worked the day shift of days 1 to \<open>n\<close>.\<close>

fun workedFirstDays :: "nat \<Rightarrow> string tracking" where
  "workedFirstDays 0 = initTracking 42"
| "workedFirstDays (Suc n) =
     updateOnAssign pElig ''e1'' (ymd 2025 0 (int (Suc n))) (int (Suc n)) DayShift
       (workedFirstDays n)"

lemma workedFirstDays_5:
  "streak (workedFirstDays 5) ''e1'' = 5 \<and> assignedCount (workedFirstDays 5) ''e1'' = 5
   \<and> lastNightOn (workedFirstDays 5) ''e1'' = None
   \<and> workedOnDay (workedFirstDays 5) ''e1'' = {1, 2, 3, 4, 5}"
  by (simp add: eval_nat_numeral updateOnAssign_def initTracking_def ymd_def daysInMonth_def
        monthLength_def jsYear_def Let_def insert_commute)

text \<open>
  C6 (the code departs from the claim). Failing input: \<open>e1\<close> has worked days 1 to 5, the
  maximum is 5, and the evaluator is asked about the night shift of day 9 in the mode of
  stage three, \<open>{ignoreWeeklyCap: true, ignoreStreak: true}\<close>. The claim says that no
  streak-related violation is returned; the code returns the violation
  \<^verbatim>\<open>5-day consecutive limit reached\<close>, which is pushed without looking at \<open>ignoreStreak\<close>,
  and the candidate is not eligible.
\<close>

theorem ignoreStreak_still_blocked:
  "eligibilityReasons pElig (workedFirstDays 5) eA NightShift 9 []
     \<lparr>ignoreWeeklyCap = True, ignoreStreak = True\<rparr> = [ConsecutiveLimit 5]
   \<and> \<not> eligible pElig (workedFirstDays 5) eA NightShift 9 []
         \<lparr>ignoreWeeklyCap = True, ignoreStreak = True\<rparr>"
  using workedFirstDays_5
  by (simp add: eligible_def eligibilityReasons_def pElig_def eA_def)

text \<open>
  C7, as stated: the weekly-cap check counts the days worked in the seven days \<open>d - 7\<close> to
  \<open>d - 1\<close>. \<open>trailingSeven\<close> is that count, in the spec's words.
\<close>

definition trailingSeven :: "'id tracking \<Rightarrow> 'id \<Rightarrow> int \<Rightarrow> int" where
  "trailingSeven st i d = int (length (filter (\<lambda>x. x \<in> workedOnDay st i) [d - 7 .. d - 1]))"

definition pCapOne :: "string params" where
  "pCapOne = pElig\<lparr>weeklyCap := 1\<rparr>"

text \<open>
  With a weekly cap of 1, \<open>e1\<close> has worked day 1 only and is asked for day 8: one day worked
  within days 1 to 7, which reaches the cap, and yet the code reports no violation, because
  it counts days 2 to 7.
\<close>

theorem weeklyCap_window_counterexample:
  "weeklyCap pCapOne \<le> trailingSeven (workedFirstDays 1) ''e1'' 8
   \<and> windowCount (workedFirstDays 1) ''e1'' 8 7 = 0
   \<and> eligibilityReasons pCapOne (workedFirstDays 1) eA DayShift 8 [] noRelax = []"
  by (simp add: trailingSeven_def windowCount_def eligibilityReasons_def pCapOne_def pElig_def
        eA_def noRelax_def updateOnAssign_def initTracking_def ymd_def daysInMonth_def
        monthLength_def jsYear_def Let_def upto.simps)

text \<open>
  C7, amended: the weekly-cap check counts the days the candidate worked among the six days
  \<open>d - 6\<close> to \<open>d - 1\<close> (not before day 1), that is the seven-day window that ends with day
  \<open>d\<close> itself; the weekly-cap violation is reported exactly when relaxation of the cap is
  off and that count is at least the cap, and then the candidate is ineligible.
\<close>

theorem weeklyCap_window:
  "(WeeklyCapReached (weeklyCap p) \<in> set (eligibilityReasons p st cand sh d dap rl))
     = (\<not> ignoreWeeklyCap rl
        \<and> weeklyCap p \<le> int (card {x \<in> workedOnDay st (id_emp cand). max 1 (d - 6) \<le> x \<and> x \<le> d - 1}))
   \<and> (WeeklyCapReached (weeklyCap p) \<in> set (eligibilityReasons p st cand sh d dap rl)
        \<longrightarrow> \<not> eligible p st cand sh d dap rl)"
proof -
  have "windowCount st (id_emp cand) d 7
          = int (card {x \<in> workedOnDay st (id_emp cand). max 1 (d - 6) \<le> x \<and> x \<le> d - 1})"
    by (simp add: windowCount_card)
  then show ?thesis
    by (auto simp: eligibilityReasons_def eligible_def)
qed

theorem weeklyCap_window_witness:
  "WeeklyCapReached (weeklyCap pCapOne)
     \<in> set (eligibilityReasons pCapOne (workedFirstDays 1) eA DayShift 7 [] noRelax)
   \<and> \<not> ignoreWeeklyCap noRelax
   \<and> {x \<in> workedOnDay (workedFirstDays 1) ''e1''. max 1 (7 - 6) \<le> x \<and> x \<le> 7 - 1} = {1}
   \<and> \<not> eligible pCapOne (workedFirstDays 1) eA DayShift 7 [] noRelax"
proof -
  have w: "workedOnDay (workedFirstDays 1) ''e1'' = {1}"
    by (simp add: updateOnAssign_def initTracking_def Let_def)
  have s: "{x \<in> workedOnDay (workedFirstDays 1) ''e1''. max 1 (7 - 6) \<le> x \<and> x \<le> 7 - 1} = {1}"
    unfolding w by auto
  have c: "weeklyCap pCapOne = 1" "id_emp eA = ''e1''" "\<not> ignoreWeeklyCap noRelax"
    by (simp_all add: pCapOne_def eA_def noRelax_def)
  show ?thesis
    using weeklyCap_window [of pCapOne "workedFirstDays 1" eA DayShift 7 "[]" noRelax] s c
    by simp
qed

section \<open>The streak bias\<close>

definition eTwo :: "string employee" where
  "eTwo = \<lparr>id_emp = ''e1'', name = ''A'', preference = Day, desiredShifts = 2, isReserve = False\<rparr>"

text \<open>
  C9 (the code departs from the claim). Failing input: \<open>e1\<close> desires 2 shifts, has worked
  day 1 (one shift assigned, streak 1), and the maximum streak is 5. The remaining desired
  count is 1, at most 2, and the streak is at least 1, so the claim gives the factor 1.3; the
  code returns 1.1, because the test for a streak between 1 and the maximum comes first. The
  branch that returns 1.3 is never reached (\<open>consecutiveBias_never_finishing\<close>).
\<close>

theorem consecutiveBias_finishing_block:
  "max 0 (desiredOf eTwo - assignedCount (workedFirstDays 1) (id_emp eTwo)) \<le> 2
   \<and> 1 \<le> streak (workedFirstDays 1) (id_emp eTwo)
   \<and> consecutiveBias pElig (workedFirstDays 1) eTwo = 11 / 10
   \<and> consecutiveBias pElig (workedFirstDays 1) eTwo \<noteq> 13 / 10"
  by (simp add: consecutiveBias_def desiredOf_def eTwo_def pElig_def updateOnAssign_def
        initTracking_def Let_def)

section \<open>Manual assignment\<close>

definition rowDup :: "string row" where
  "rowDup = \<lparr>date = (2025, 1, 3), dayIds = [''e1''], nightIds = [''e2''], dayMissing = 1,
             nightMissing = 0, dayIssues = [], nightIssues = []\<rparr>"

definition rowFull :: "string row" where
  "rowFull = \<lparr>date = (2025, 1, 4), dayIds = [''e1''], nightIds = [''e2''], dayMissing = 0,
              nightMissing = 0, dayIssues = [], nightIssues = []\<rparr>"

definition schedDup :: "string schedule" where
  "schedDup = \<lparr>days = [rowDup, rowFull],
               meta = \<lparr>totalDemand = 62, sumDesiredPrimaries = 20, allowReservesInNormal = False\<rparr>\<rparr>"

text \<open>
  C10, as stated: when the employee is already on the targeted shift's list, the id is
  appended a second time and the missing count is still decremented. On 4 January the day
  shift is full (missing count 0) with \<open>e1\<close> on it; assigning \<open>e1\<close> to it again appends the
  id, and the count stays 0: \<^verbatim>\<open>Math.max(0, m - 1)\<close> does not go below 0.
\<close>

theorem assignManual_full_row_counterexample:
  "''e1'' \<in> set (dayIds (days schedDup ! 1))
   \<and> dayIds (days (assignManual (2025, 1, 4) DayShift ''e1'' schedDup) ! 1) = [''e1'', ''e1'']
   \<and> dayMissing (days schedDup ! 1) = 0
   \<and> dayMissing (days (assignManual (2025, 1, 4) DayShift ''e1'' schedDup) ! 1) = 0
   \<and> dayMissing (days (assignManual (2025, 1, 4) DayShift ''e1'' schedDup) ! 1)
        \<noteq> dayMissing (days schedDup ! 1) - 1"
  by (simp add: assignManual_def assignManualRow_def schedDup_def rowDup_def rowFull_def
        idsOf_def otherShift_def)

text \<open>
  C10, amended: \<^verbatim>\<open>assignManual\<close> keeps the number and order of the rows and the metadata,
  and changes a row only if its date is the given one and the employee is not on the list of
  the other shift. Such a row gets the id appended to the list of the targeted shift, also
  when the id is already on that list (which then holds it twice), and its missing count for
  that shift becomes \<open>max 0 (m - 1)\<close>: one less when it was positive, 0 when it was 0 or
  less. The other shift's list and count, the date and the issue texts stay. Every other row
  is returned as it is.
\<close>

theorem assignManual_rows:
  "meta (assignManual dt sh i prev) = meta prev
   \<and> length (days (assignManual dt sh i prev)) = length (days prev)
   \<and> (\<forall>k < length (days prev).
        let r = days prev ! k; r' = days (assignManual dt sh i prev) ! k in
        (r' = r) = (date r \<noteq> dt \<or> i \<in> set (idsOf (otherShift sh) r))
        \<and> (date r = dt \<and> i \<notin> set (idsOf (otherShift sh) r) \<longrightarrow>
             idsOf sh r' = idsOf sh r @ [i]
             \<and> missingOf sh r' = max 0 (missingOf sh r - 1)
             \<and> (0 < missingOf sh r \<longrightarrow> missingOf sh r' = missingOf sh r - 1)
             \<and> (missingOf sh r \<le> 0 \<longrightarrow> missingOf sh r' = 0)
             \<and> (i \<in> set (idsOf sh r) \<longrightarrow> \<not> distinct (idsOf sh r'))
             \<and> idsOf (otherShift sh) r' = idsOf (otherShift sh) r
             \<and> missingOf (otherShift sh) r' = missingOf (otherShift sh) r
             \<and> date r' = date r \<and> dayIssues r' = dayIssues r \<and> nightIssues r' = nightIssues r))"
proof -
  have row: "(assignManualRow dt sh i r = r) = (date r \<noteq> dt \<or> i \<in> set (idsOf (otherShift sh) r))"
    for r :: "'a row"
  proof (cases "date r \<noteq> dt \<or> i \<in> set (idsOf (otherShift sh) r)")
    case True
    then show ?thesis by (auto simp: assignManualRow_def)
  next
    case False
    then have "idsOf sh (assignManualRow dt sh i r) = idsOf sh r @ [i]"
      by (cases sh) (auto simp: assignManualRow_def idsOf_def)
    then have "assignManualRow dt sh i r \<noteq> r" by auto
    with False show ?thesis by simp
  qed
  have changed:
    "idsOf sh (assignManualRow dt sh i r) = idsOf sh r @ [i]
     \<and> missingOf sh (assignManualRow dt sh i r) = max 0 (missingOf sh r - 1)
     \<and> idsOf (otherShift sh) (assignManualRow dt sh i r) = idsOf (otherShift sh) r
     \<and> missingOf (otherShift sh) (assignManualRow dt sh i r) = missingOf (otherShift sh) r
     \<and> date (assignManualRow dt sh i r) = date r
     \<and> dayIssues (assignManualRow dt sh i r) = dayIssues r
     \<and> nightIssues (assignManualRow dt sh i r) = nightIssues r"
    if "date r = dt" "i \<notin> set (idsOf (otherShift sh) r)" for r :: "'a row"
    using that
    by (cases sh) (simp_all add: assignManualRow_def idsOf_def missingOf_def otherShift_def)
  have nth: "days (assignManual dt sh i prev) ! k = assignManualRow dt sh i (days prev ! k)"
    if "k < length (days prev)" for k
    using that by (simp add: assignManual_def)
  show ?thesis
  proof (intro conjI allI impI)
    show "meta (assignManual dt sh i prev) = meta prev" by (simp add: assignManual_def)
    show "length (days (assignManual dt sh i prev)) = length (days prev)"
      by (simp add: assignManual_def)
    fix k assume k: "k < length (days prev)"
    show "let r = days prev ! k; r' = days (assignManual dt sh i prev) ! k in
          (r' = r) = (date r \<noteq> dt \<or> i \<in> set (idsOf (otherShift sh) r))
          \<and> (date r = dt \<and> i \<notin> set (idsOf (otherShift sh) r) \<longrightarrow>
               idsOf sh r' = idsOf sh r @ [i]
               \<and> missingOf sh r' = max 0 (missingOf sh r - 1)
               \<and> (0 < missingOf sh r \<longrightarrow> missingOf sh r' = missingOf sh r - 1)
               \<and> (missingOf sh r \<le> 0 \<longrightarrow> missingOf sh r' = 0)
               \<and> (i \<in> set (idsOf sh r) \<longrightarrow> \<not> distinct (idsOf sh r'))
               \<and> idsOf (otherShift sh) r' = idsOf (otherShift sh) r
               \<and> missingOf (otherShift sh) r' = missingOf (otherShift sh) r
               \<and> date r' = date r \<and> dayIssues r' = dayIssues r \<and> nightIssues r' = nightIssues r)"
      unfolding Let_def nth[OF k]
    proof (intro conjI impI)
      show "(assignManualRow dt sh i (days prev ! k) = days prev ! k)
              = (date (days prev ! k) \<noteq> dt \<or> i \<in> set (idsOf (otherShift sh) (days prev ! k)))"
        by (rule row)
    qed (use changed[of "days prev ! k"] in auto)
  qed
qed

theorem assignManual_rows_witness:
  "(0::nat) < length (days schedDup)
   \<and> date (days schedDup ! 0) = (2025, 1, 3)
   \<and> ''e1'' \<notin> set (idsOf (otherShift DayShift) (days schedDup ! 0))
   \<and> ''e1'' \<in> set (idsOf DayShift (days schedDup ! 0))
   \<and> dayMissing (days schedDup ! 0) = 1
   \<and> dayIds (days (assignManual (2025, 1, 3) DayShift ''e1'' schedDup) ! 0) = [''e1'', ''e1'']
   \<and> dayMissing (days (assignManual (2025, 1, 3) DayShift ''e1'' schedDup) ! 0) = 0
   \<and> days (assignManual (2025, 1, 3) DayShift ''e1'' schedDup) ! 1 = days schedDup ! 1
   \<and> days (assignManual (2025, 1, 3) DayShift ''e2'' schedDup) ! 0 = days schedDup ! 0
   \<and> dayMissing (days schedDup ! 1) = 0
   \<and> dayIds (days (assignManual (2025, 1, 4) DayShift ''e1'' schedDup) ! 1) = [''e1'', ''e1'']
   \<and> dayMissing (days (assignManual (2025, 1, 4) DayShift ''e1'' schedDup) ! 1) = 0"
  using assignManual_rows [of "(2025, 1, 3)" DayShift "''e1''" schedDup]
        assignManual_rows [of "(2025, 1, 3)" DayShift "''e2''" schedDup]
        assignManual_rows [of "(2025, 1, 4)" DayShift "''e1''" schedDup]
  by (simp add: schedDup_def rowDup_def rowFull_def idsOf_def otherShift_def missingOf_def
        Let_def assignManual_def assignManualRow_def)

section \<open>The pool sweep and the hard ceiling\<close>

text \<open>
  What one run of the loop of \<^verbatim>\<open>tryPool\<close> does to the picks and to the assigned counts:
  it appends distinct ids of available candidates, to the picks and to
  \<^verbatim>\<open>dayAlreadyPicked\<close> alike, and adds one to the count of each; when
  \<^verbatim>\<open>underTargetExistsGlobally\<close> is set, every one of them was under its target.
\<close>

lemma weightFor_assignedCount:
  "weightFor p st e sh d u = (w, st1) \<Longrightarrow> assignedCount st1 = assignedCount st"
  by (auto simp: weightFor_def split: if_splits prod.splits)

lemma weightsFor_assignedCount:
  "weightsFor p st es sh d u = (ws, st1) \<Longrightarrow> assignedCount st1 = assignedCount st"
proof (induction es arbitrary: st ws st1)
  case Nil
  then show ?case by simp
next
  case (Cons e es)
  obtain w sta where a: "weightFor p st e sh d u = (w, sta)" by (cases "weightFor p st e sh d u")
  obtain ws' stb where b: "weightsFor p sta es sh d u = (ws', stb)"
    by (cases "weightsFor p sta es sh d u")
  from Cons.prems a b have "st1 = stb" by simp
  with Cons.IH[OF b] weightFor_assignedCount[OF a] show ?case by simp
qed

lemma assignedCount_updateOnAssign:
  "assignedCount (updateOnAssign p i dt d sh st) = (assignedCount st)(i := assignedCount st i + 1)"
  by (simp add: updateOnAssign_def Let_def split: option.splits)

lemma tryLoop_new:
  "tryLoop p needed sh day u available st picks dap = (st', picks', dap') \<Longrightarrow>
   \<exists>new. picks' = picks @ new \<and> dap' = dap @ new \<and> distinct new
         \<and> set new \<subseteq> id_emp ` set available
         \<and> (u \<longrightarrow> (\<forall>i \<in> set new. \<exists>e \<in> set available. id_emp e = i
                                   \<and> assignedCount st i < desiredOf e))
         \<and> (\<forall>i. assignedCount st' i = assignedCount st i + (if i \<in> set new then 1 else 0))"
proof (induction p needed sh day u available st picks dap arbitrary: st' picks' dap'
       rule: tryLoop.induct)
  case (1 p needed sh day u available st picks dap)
  show ?case
  proof (cases "int (length picks) < needed \<and> available \<noteq> []")
    case False
    with "1.prems" have "st' = st \<and> picks' = picks \<and> dap' = dap"
      by (subst (asm) tryLoop.simps) auto
    then show ?thesis by (intro exI[of _ "[]"]) simp
  next
    case True
    obtain weights st1 where w: "weightsFor p st available sh day u = (weights, st1)"
      by (cases "weightsFor p st available sh day u")
    obtain picked s' where r: "randomPickWeighted available weights (seed st1) = (picked, s')"
      by (cases "randomPickWeighted available weights (seed st1)")
    have st1: "assignedCount st1 = assignedCount st"
      by (rule weightsFor_assignedCount[OF w])
    show ?thesis
    proof (cases picked)
      case None
      with "1.prems" True w r have "st' = st1\<lparr>seed := s'\<rparr> \<and> picks' = picks \<and> dap' = dap"
        by (subst (asm) tryLoop.simps) auto
      then show ?thesis using st1 by (intro exI[of _ "[]"]) simp
    next
      case (Some e)
      have e: "e \<in> set available" using r Some by (auto dest: randomPickWeighted_member)
      let ?rest = "filter (\<lambda>x. id_emp x \<noteq> id_emp e) available"
      show ?thesis
      proof (cases "u \<and> assignedCount st1 (id_emp e) \<ge> desiredOf e")
        case skip: True
        with "1.prems" True w r Some
        have "tryLoop p needed sh day u ?rest (st1\<lparr>seed := s'\<rparr>) picks dap = (st', picks', dap')"
          by (subst (asm) tryLoop.simps) auto
        from "1.IH"(1)[OF True w[symmetric] r[symmetric] Some skip this]
        obtain new where n: "picks' = picks @ new" "dap' = dap @ new" "distinct new"
          "set new \<subseteq> id_emp ` set ?rest"
          "u \<longrightarrow> (\<forall>i \<in> set new. \<exists>e \<in> set ?rest. id_emp e = i
                      \<and> assignedCount (st1\<lparr>seed := s'\<rparr>) i < desiredOf e)"
          "\<forall>i. assignedCount st' i = assignedCount (st1\<lparr>seed := s'\<rparr>) i + (if i \<in> set new then 1 else 0)"
          by blast
        show ?thesis
          using n st1 by (intro exI[of _ new]) (auto; force)
      next
        case commit: False
        let ?st2 = "updateOnAssign p (id_emp e) (ymd (year p) (monthIndex0 p) day) day sh
                      (st1\<lparr>seed := s'\<rparr>)"
        from commit "1.prems" True w r Some
        have "tryLoop p needed sh day u ?rest ?st2 (picks @ [id_emp e]) (dap @ [id_emp e])
                = (st', picks', dap')"
          by (subst (asm) tryLoop.simps) auto
        from "1.IH"(2)[OF True w[symmetric] r[symmetric] Some commit this]
        obtain new where n: "picks' = (picks @ [id_emp e]) @ new" "dap' = (dap @ [id_emp e]) @ new"
          "distinct new" "set new \<subseteq> id_emp ` set ?rest"
          "u \<longrightarrow> (\<forall>i \<in> set new. \<exists>x \<in> set ?rest. id_emp x = i \<and> assignedCount ?st2 i < desiredOf x)"
          "\<forall>i. assignedCount st' i = assignedCount ?st2 i + (if i \<in> set new then 1 else 0)"
          by blast
        have notin: "id_emp e \<notin> set new" using n(4) by auto
        have cnt: "assignedCount ?st2 = (assignedCount st)(id_emp e := assignedCount st (id_emp e) + 1)"
          by (simp add: assignedCount_updateOnAssign st1)
        have under: "u \<longrightarrow> assignedCount st (id_emp e) < desiredOf e"
          using commit st1 by auto
        show ?thesis
        proof (intro exI[of _ "id_emp e # new"] conjI)
          show "picks' = picks @ id_emp e # new" using n(1) by simp
          show "dap' = dap @ id_emp e # new" using n(2) by simp
          show "distinct (id_emp e # new)" using n(3) notin by simp
          show "set (id_emp e # new) \<subseteq> id_emp ` set available" using n(4) e by auto
          show "u \<longrightarrow> (\<forall>i \<in> set (id_emp e # new). \<exists>x \<in> set available. id_emp x = i
                          \<and> assignedCount st i < desiredOf x)"
          proof (intro impI ballI)
            fix i assume u: u and i: "i \<in> set (id_emp e # new)"
            show "\<exists>x \<in> set available. id_emp x = i \<and> assignedCount st i < desiredOf x"
            proof (cases "i = id_emp e")
              case True
              with under u e show ?thesis by auto
            next
              case False
              with i have "i \<in> set new" by simp
              with n(5) u obtain x where "x \<in> set ?rest" "id_emp x = i"
                "assignedCount ?st2 i < desiredOf x" by blast
              with False show ?thesis by (auto simp: cnt)
            qed
          qed
          show "\<forall>i. assignedCount st' i = assignedCount st i + (if i \<in> set (id_emp e # new) then 1 else 0)"
            using n(6) notin by (auto simp: cnt)
        qed
      qed
    qed
  qed
qed

text \<open>
  C4, as stated: at the end of the strict pass, whenever an employee's assigned count exceeds
  its desired count, every other non-reserve employee has reached its desired count.
  \<open>hardCeilingClaim\<close> is that property of the trackers, in the spec's words.
\<close>

definition hardCeilingClaim :: "'id params \<Rightarrow> 'id tracking \<Rightarrow> bool" where
  "hardCeilingClaim p st =
     (\<forall>e \<in> set (employees p). desiredOf e < assignedCount st (id_emp e) \<longrightarrow>
        (\<forall>x \<in> set (employees p). \<not> isReserve x \<and> id_emp x \<noteq> id_emp e \<longrightarrow>
           desiredOf x \<le> assignedCount st (id_emp x)))"

text \<open>
  A roster of two: \<open>e1\<close> prefers days and desires 1 shift, \<open>e2\<close> prefers nights and
  desires 31; one seat per shift, at most 2 consecutive days, January 2025, seed 42, no hard
  fill. On day 2 \<open>e2\<close> has worked the night before and is not eligible for the day shift, so
  no eligible candidate is under target and \<open>e1\<close>, already at its target, is assigned again.
\<close>

definition pCeil :: "string params" where
  "pCeil = \<lparr>employees =
              [\<lparr>id_emp = ''e1'', name = ''A'', preference = Day, desiredShifts = 1, isReserve = False\<rparr>,
               \<lparr>id_emp = ''e2'', name = ''B'', preference = Night, desiredShifts = 31, isReserve = False\<rparr>],
            year = 2025, monthIndex0 = 0, daySlots = 1, nightSlots = 1,
            enforceNoMorningAfterNight = True, weeklyCap = 5, maxStreak = 2,
            spreadEnabled = True, useReservesAuto = False, seedIn = Some 42, hardFill = False\<rparr>"

lemma pCeil_end:
  "(let st = fst (strictPass pCeil [1 .. dInM pCeil] (initTracking 42)) in
      assignedCount st ''e1'' = 2 \<and> assignedCount st ''e2'' = 2)"
  by code_simp

text \<open>
  C4 fails on that run: the strict pass ends with \<open>e1\<close> at 2 shifts, above its desired 1,
  while \<open>e2\<close> has 2 of its desired 31.
\<close>

theorem hard_ceiling_counterexample:
  "assignedCount (fst (strictPass pCeil [1 .. dInM pCeil] (initTracking 42))) ''e1'' = 2
   \<and> assignedCount (fst (strictPass pCeil [1 .. dInM pCeil] (initTracking 42))) ''e2'' = 2
   \<and> \<not> hardCeilingClaim pCeil (fst (strictPass pCeil [1 .. dInM pCeil] (initTracking 42)))"
proof -
  define st where "st = fst (strictPass pCeil [1 .. dInM pCeil] (initTracking 42))"
  from pCeil_end have c: "assignedCount st ''e1'' = 2" "assignedCount st ''e2'' = 2"
    by (simp_all add: st_def Let_def)
  have e: "employees pCeil =
      [\<lparr>id_emp = ''e1'', name = ''A'', preference = Day, desiredShifts = 1, isReserve = False\<rparr>,
       \<lparr>id_emp = ''e2'', name = ''B'', preference = Night, desiredShifts = 31, isReserve = False\<rparr>]"
    by (simp add: pCeil_def)
  have "\<not> hardCeilingClaim pCeil st"
    by (simp add: hardCeilingClaim_def e c desiredOf_def)
  with c show ?thesis by (simp add: st_def)
qed

text \<open>
  C4, amended: the hard ceiling holds sweep by sweep, and against eligible candidates only.
  If, when a sweep of \<^verbatim>\<open>tryPool\<close> starts, some candidate of the allowed pool is under
  its target and eligible for the shift, then every employee the sweep assigns was below its
  desired count when the sweep started and is assigned once, so it ends at or below its
  desired count; nobody else's count changes. (So an employee is pushed above its desired
  count only by a sweep that starts with no eligible under-target candidate in the allowed
  pool; employees who are not eligible may then still be under target, also at the end of
  the pass.)
\<close>

theorem hard_ceiling_sweep:
  assumes "tryPool p needed sh day pp rp pool (st, picks, dap) = (st', picks', dap')"
    and "x \<in> set (allAllowed p pp rp)"
    and "assignedCount st (id_emp x) < desiredOf x"
    and "eligible p st x sh day dap noRelax"
  shows "\<exists>new. picks' = picks @ new \<and> distinct new
           \<and> (\<forall>i \<in> set new. \<exists>e \<in> set pool. id_emp e = i \<and> assignedCount st i < desiredOf e
                                  \<and> assignedCount st' i \<le> desiredOf e)
           \<and> (\<forall>i. i \<notin> set new \<longrightarrow> assignedCount st' i = assignedCount st i)"
proof -
  let ?av = "filter (\<lambda>e. eligible p st e sh day dap noRelax) pool"
  from assms(2-4) have "underTargetExists p st (allAllowed p pp rp) sh day dap"
    by (auto simp: underTargetExists_def list_ex_iff)
  with assms(1) have "tryLoop p needed sh day True ?av st picks dap = (st', picks', dap')"
    by (simp add: tryPool_def)
  from tryLoop_new[OF this] obtain new where n: "picks' = picks @ new" "distinct new"
    "\<forall>i \<in> set new. \<exists>e \<in> set ?av. id_emp e = i \<and> assignedCount st i < desiredOf e"
    "\<forall>i. assignedCount st' i = assignedCount st i + (if i \<in> set new then 1 else 0)"
    by auto
  show ?thesis
  proof (intro exI[of _ new] conjI ballI allI impI)
    show "picks' = picks @ new" "distinct new" by (rule n)+
  next
    fix i assume i: "i \<in> set new"
    with n(3) obtain e where "e \<in> set ?av" "id_emp e = i" "assignedCount st i < desiredOf e"
      by blast
    moreover from n(4) i have "assignedCount st' i = assignedCount st i + 1" by simp
    ultimately show "\<exists>e \<in> set pool. id_emp e = i \<and> assignedCount st i < desiredOf e
                        \<and> assignedCount st' i \<le> desiredOf e"
      by (intro bexI[of _ e]) auto
  next
    fix i assume "i \<notin> set new"
    with n(4) show "assignedCount st' i = assignedCount st i" by simp
  qed
qed

definition eDay :: "string employee" where
  "eDay = \<lparr>id_emp = ''e1'', name = ''A'', preference = Day, desiredShifts = 1, isReserve = False\<rparr>"

lemma pCeil_sweep:
  "fst (snd (tryPool pCeil 1 DayShift 1 (primaries pCeil) (reserves pCeil) (primaries pCeil)
              (initTracking 42, [], []))) = [''e1'']"
  by code_simp

theorem hard_ceiling_sweep_witness:
  "eDay \<in> set (allAllowed pCeil (primaries pCeil) (reserves pCeil))
   \<and> assignedCount (initTracking 42) (id_emp eDay) < desiredOf eDay
   \<and> eligible pCeil (initTracking 42) eDay DayShift 1 [] noRelax
   \<and> fst (snd (tryPool pCeil 1 DayShift 1 (primaries pCeil) (reserves pCeil) (primaries pCeil)
                 (initTracking 42, [], []))) = [''e1'']
   \<and> assignedCount (fst (tryPool pCeil 1 DayShift 1 (primaries pCeil) (reserves pCeil)
                           (primaries pCeil) (initTracking 42, [], []))) ''e1'' \<le> 1
   \<and> assignedCount (fst (tryPool pCeil 1 DayShift 1 (primaries pCeil) (reserves pCeil)
                           (primaries pCeil) (initTracking 42, [], []))) ''e2'' = 0"
proof -
  define t where "t = tryPool pCeil 1 DayShift 1 (primaries pCeil) (reserves pCeil)
                        (primaries pCeil) (initTracking 42, [], [])"
  have k: "fst (snd t) = [''e1'']" using pCeil_sweep by (simp add: t_def)
  have x: "eDay \<in> set (allAllowed pCeil (primaries pCeil) (reserves pCeil))"
    by (simp add: allAllowed_def primaries_def pCeil_def eDay_def)
  have u: "assignedCount (initTracking 42) (id_emp eDay) < desiredOf eDay"
    by (simp add: initTracking_def desiredOf_def eDay_def)
  have e: "eligible pCeil (initTracking 42) eDay DayShift 1 [] noRelax"
    by (simp add: eligible_def eligibilityReasons_def initTracking_def windowCount_def
          noRelax_def pCeil_def eDay_def)
  have t: "tryPool pCeil 1 DayShift 1 (primaries pCeil) (reserves pCeil) (primaries pCeil)
             (initTracking 42, [], []) = (fst t, fst (snd t), snd (snd t))"
    by (simp add: t_def)
  from hard_ceiling_sweep[OF t x u e] k
  have a: "\<exists>e \<in> set (primaries pCeil). id_emp e = ''e1'' \<and> assignedCount (fst t) ''e1'' \<le> desiredOf e"
    and b: "assignedCount (fst t) ''e2'' = assignedCount (initTracking 42 :: string tracking) ''e2''"
    by auto
  from a have "assignedCount (fst t) ''e1'' \<le> 1"
    by (auto simp: primaries_def pCeil_def desiredOf_def)
  moreover from b have "assignedCount (fst t) ''e2'' = 0" by (simp add: initTracking_def)
  ultimately show ?thesis using x u e k by (simp add: t_def)
qed

section \<open>Day and night lists are disjoint\<close>

lemma eligible_not_picked:
  "eligible p st e sh d dap rl \<Longrightarrow> id_emp e \<notin> set dap"
  by (auto simp: eligible_def eligibilityReasons_def split: if_splits)

lemma tryPool_new:
  assumes "tryPool p needed sh day pp rp pool (st, picks, dap) = (st', picks', dap')"
  shows "\<exists>new. picks' = picks @ new \<and> dap' = dap @ new \<and> set new \<inter> set dap = {}"
proof -
  let ?av = "filter (\<lambda>e. eligible p st e sh day dap noRelax) pool"
  from assms obtain new where "picks' = picks @ new" "dap' = dap @ new"
    "set new \<subseteq> id_emp ` set ?av"
    unfolding tryPool_def prod.case by (blast dest: tryLoop_new)
  moreover have "id_emp ` set ?av \<inter> set dap = {}"
    by (auto dest: eligible_not_picked)
  ultimately show ?thesis by blast
qed

lemma pickShift_new:
  assumes "pickShift p day needed sh pp rp dap st = (st', picks, miss, iss)"
  shows "set picks \<inter> set dap = {}"
proof -
  obtain st1 picks1 dap1 where a: "tryPool p needed sh day pp rp pp (st, [], dap) = (st1, picks1, dap1)"
    by (cases "tryPool p needed sh day pp rp pp (st, [], dap)") auto
  from tryPool_new[OF a] have 1: "dap1 = dap @ picks1" "set picks1 \<inter> set dap = {}" by auto
  show ?thesis
  proof (cases "allowReservesInNormalOf p \<and> int (length picks1) < needed")
    case True
    obtain st2 picks2 dap2 where b: "tryPool p needed sh day pp rp rp (st1, picks1, dap1) = (st2, picks2, dap2)"
      by (cases "tryPool p needed sh day pp rp rp (st1, picks1, dap1)") auto
    from tryPool_new[OF b] obtain new where "picks2 = picks1 @ new" "set new \<inter> set dap1 = {}"
      by auto
    moreover from assms a b True have "picks = picks2" by (simp add: pickShift_def)
    ultimately show ?thesis using 1 by auto
  next
    case False
    with assms a have "picks = picks1" by (auto simp: pickShift_def)
    with 1 show ?thesis by simp
  qed
qed

definition rowDisjoint :: "'id row \<Rightarrow> bool" where
  "rowDisjoint r = (set (dayIds r) \<inter> set (nightIds r) = {})"

lemma strictDay_disjoint: "rowDisjoint (snd (strictDay p d st))"
proof -
  obtain st1 dpicks dmiss diss where
    a: "pickShift p d (max 0 (daySlots p)) DayShift (primaries p) (reserves p) [] st
          = (st1, dpicks, dmiss, diss)"
    by (cases "pickShift p d (max 0 (daySlots p)) DayShift (primaries p) (reserves p) [] st") auto
  obtain st2 npicks nmiss niss where
    b: "pickShift p d (max 0 (nightSlots p)) NightShift (primaries p) (reserves p) dpicks st1
          = (st2, npicks, nmiss, niss)"
    by (cases "pickShift p d (max 0 (nightSlots p)) NightShift (primaries p) (reserves p) dpicks st1")
       auto
  from pickShift_new[OF b] show ?thesis
    by (auto simp: strictDay_def a b rowDisjoint_def)
qed

lemma strictPass_disjoint: "r \<in> set (snd (strictPass p ds st)) \<Longrightarrow> rowDisjoint r"
proof (induction ds arbitrary: st)
  case Nil
  then show ?case by simp
next
  case (Cons d ds)
  obtain st1 r1 where a: "strictDay p d st = (st1, r1)" by (cases "strictDay p d st")
  obtain st2 rs where b: "strictPass p ds st1 = (st2, rs)" by (cases "strictPass p ds st1")
  from Cons.prems a b have "r = r1 \<or> r \<in> set rs" by simp
  then show ?case
  proof
    assume "r = r1"
    with strictDay_disjoint[of p d st] a show ?thesis by simp
  next
    assume "r \<in> set rs"
    with Cons.IH[of st1] b show ?thesis by simp
  qed
qed

lemma set_insertBy: "set (insertBy cmp x xs) = insert x (set xs)"
  by (induction xs) auto

lemma set_sortBy: "set (sortBy cmp xs) = set xs"
  by (induction xs) (simp_all add: sortBy_def set_insertBy)

lemma rowDisjoint_pushId:
  "rowDisjoint r \<Longrightarrow> i \<notin> set (idsOf (otherShift sh) r) \<Longrightarrow> rowDisjoint (pushId sh i r)"
  by (cases sh) (auto simp: rowDisjoint_def pushId_def idsOf_def otherShift_def)

lemma rowDisjoint_setMissing: "rowDisjoint (setMissing p sh r) = rowDisjoint r"
  by (simp add: rowDisjoint_def setMissing_def)

lemma rows_update_disjoint:
  assumes "\<forall>r \<in> set rows. rowDisjoint r" and "i < length rows \<Longrightarrow> rowDisjoint r'"
  shows "\<forall>r \<in> set (rows[i := r']). rowDisjoint r"
proof (cases "i < length rows")
  case True
  with assms show ?thesis by (auto dest: subsetD[OF set_update_subset_insert])
next
  case False
  with assms(1) show ?thesis by (simp add: list_update_beyond)
qed

lemma pickStage_disjoint:
  assumes "pickStage p i sh rl (st, rows) = Some (st', rows')"
    and "\<forall>r \<in> set rows. rowDisjoint r"
  shows "\<forall>r \<in> set rows'. rowDisjoint r"
proof -
  let ?r = "rows ! i"
  let ?pools = "primaries p @ reserves p"
  let ?under = "filter (\<lambda>e. assignedCount st (id_emp e) < desiredOf e) ?pools"
  let ?order = "filter (\<lambda>e. id_emp e \<notin> set (idsOf sh ?r) \<and> id_emp e \<notin> set (idsOf (otherShift sh) ?r)
                            \<and> eligible p st e sh (int i + 1) (idsOf sh ?r @ idsOf (otherShift sh) ?r) rl)
                       (if ?under \<noteq> [] then ?under else ?pools)"
  from assms(1) obtain chosen rest where c: "sortBy (needCmp st) ?order = chosen # rest"
    and r': "rows' = rows[i := pushId sh (id_emp chosen) ?r]"
    by (auto simp: pickStage_def Let_def split: list.splits)
  have "chosen \<in> set (chosen # rest)" by simp
  then have "chosen \<in> set (sortBy (needCmp st) ?order)" by (simp only: c)
  then have "chosen \<in> set ?order" by (simp only: set_sortBy)
  then have "id_emp chosen \<notin> set (idsOf (otherShift sh) ?r)" by simp
  then have "i < length rows \<Longrightarrow> rowDisjoint (pushId sh (id_emp chosen) ?r)"
    using assms(2) by (simp add: rowDisjoint_pushId)
  with assms(2) show ?thesis unfolding r' by (rule rows_update_disjoint)
qed

lemma fillSlot_disjoint:
  assumes "\<forall>r \<in> set (snd x). rowDisjoint r"
  shows "\<forall>r \<in> set (snd (fillSlot p i sh x)). rowDisjoint r"
proof -
  obtain st rows where x: "x = (st, rows)" by (cases x)
  define y where "y =
     (case pickStage p i sh noRelax x of
        Some y \<Rightarrow> y
      | None \<Rightarrow>
          (case pickStage p i sh \<lparr>ignoreWeeklyCap = True, ignoreStreak = False\<rparr> x of
             Some y \<Rightarrow> y
           | None \<Rightarrow>
               (case pickStage p i sh \<lparr>ignoreWeeklyCap = True, ignoreStreak = True\<rparr> x of
                  Some y \<Rightarrow> y
                | None \<Rightarrow> x)))"
  have y: "\<forall>r \<in> set (snd y). rowDisjoint r"
    using assms pickStage_disjoint[of p i sh _ st rows "fst z" "snd z" for z]
    by (auto simp: y_def x split: option.splits)
  have "fillSlot p i sh x = (fst y, (snd y)[i := setMissing p sh (snd y ! i)])"
    by (simp add: fillSlot_def y_def split: prod.splits)
  moreover have "\<forall>r \<in> set ((snd y)[i := setMissing p sh (snd y ! i)]). rowDisjoint r"
    using y by (intro rows_update_disjoint) (simp_all add: rowDisjoint_setMissing)
  ultimately show ?thesis by simp
qed

lemmas fillWhile_Some_induct =
  fillWhile.raw_induct[where xa = "(((p, i), sh), x)", unfolded prod.case] for p i sh x

lemma fillWhile_disjoint:
  assumes "fillWhile p i sh x = Some y" and "\<forall>r \<in> set (snd x). rowDisjoint r"
  shows "\<forall>r \<in> set (snd y). rowDisjoint r"
proof -
  have "(\<forall>r \<in> set (snd x). rowDisjoint r) \<longrightarrow> (\<forall>r \<in> set (snd y). rowDisjoint r)"
  proof (rule fillWhile_Some_induct
      [where P = "\<lambda>p i sh x y. (\<forall>r \<in> set (snd x). rowDisjoint r) \<longrightarrow> (\<forall>r \<in> set (snd y). rowDisjoint r)",
       OF _ assms(1)])
    fix f :: "'a params \<Rightarrow> nat \<Rightarrow> shift \<Rightarrow> 'a tracking \<times> 'a row list
              \<Rightarrow> ('a tracking \<times> 'a row list) option"
    fix p i sh x z
    assume ih: "\<And>p i sh x z. f p i sh x = Some z
                  \<Longrightarrow> (\<forall>r \<in> set (snd x). rowDisjoint r) \<longrightarrow> (\<forall>r \<in> set (snd z). rowDisjoint r)"
      and body: "(if 0 < missingOf sh (snd x ! i) then f p i sh (fillSlot p i sh x)
                  else Some x) = Some z"
    show "(\<forall>r \<in> set (snd x). rowDisjoint r) \<longrightarrow> (\<forall>r \<in> set (snd z). rowDisjoint r)"
    proof
      assume inv: "\<forall>r \<in> set (snd x). rowDisjoint r"
      show "\<forall>r \<in> set (snd z). rowDisjoint r"
      proof (cases "0 < missingOf sh (snd x ! i)")
        case True
        with body have "f p i sh (fillSlot p i sh x) = Some z" by simp
        from ih[OF this] fillSlot_disjoint[OF inv] show ?thesis by blast
      next
        case False
        with body inv show ?thesis by simp
      qed
    qed
  qed
  with assms(2) show ?thesis by blast
qed

lemma hardFillRows_disjoint:
  "hardFillRows p is x = Some y \<Longrightarrow> \<forall>r \<in> set (snd x). rowDisjoint r
   \<Longrightarrow> \<forall>r \<in> set (snd y). rowDisjoint r"
proof (induction "is" arbitrary: x)
  case Nil
  then show ?case by simp
next
  case (Cons i "is")
  from Cons.prems(1) obtain x1 x2 where a: "fillWhile p i DayShift x = Some x1"
    and b: "fillWhile p i NightShift x1 = Some x2" and c: "hardFillRows p is x2 = Some y"
    by (auto split: option.splits)
  from fillWhile_disjoint[OF a Cons.prems(2)] have "\<forall>r \<in> set (snd x1). rowDisjoint r" .
  from fillWhile_disjoint[OF b this] have "\<forall>r \<in> set (snd x2). rowDisjoint r" .
  from Cons.IH[OF c this] show ?case .
qed

text \<open>
  C2: in every row of every result that \<^verbatim>\<open>generateSchedule\<close> returns, with or without
  hard fill, no employee id is both in the day list and in the night list.
\<close>

theorem day_night_disjoint:
  assumes "generateSchedule p entropy = Some out" and "r \<in> set (days out)"
  shows "set (dayIds r) \<inter> set (nightIds r) = {}"
proof -
  define s0 where "s0 = (case seedIn p of Some s \<Rightarrow> s | None \<Rightarrow> entropy)"
  define x where "x = strictPass p [1 .. dInM p] (initTracking s0)"
  have inv: "\<forall>r \<in> set (snd x). rowDisjoint r"
    unfolding x_def by (blast intro: strictPass_disjoint)
  have "\<forall>r \<in> set (days out). rowDisjoint r"
  proof (cases "hardFill p")
    case False
    with assms(1) have "days out = snd x"
      by (auto simp: generateSchedule_def Let_def x_def s0_def)
    with inv show ?thesis by simp
  next
    case True
    with assms(1) obtain st rows where h: "hardFillRows p [0 ..< length (snd x)] x = Some (st, rows)"
      and "out = \<lparr>days = rows, meta = metaOf p\<rparr>"
      by (auto simp: generateSchedule_def Let_def x_def s0_def split: option.splits)
    with hardFillRows_disjoint[OF h inv] show ?thesis by simp
  qed
  with assms(2) show ?thesis by (simp add: rowDisjoint_def)
qed

text \<open>
  A run with hard fill that returns: one primary \<open>p1\<close> (prefers days, desires 2) and two
  reserves, one seat per shift, weekly cap 1, at most 5 consecutive days, February 2026,
  seed 7. The strict pass puts \<open>p1\<close> on the day shift of days 1, 8, 15 and 22 and leaves
  every other seat open; hard fill fills them all.
\<close>

definition pHard :: "string params" where
  "pHard = \<lparr>employees =
              [\<lparr>id_emp = ''p1'', name = ''P'', preference = Day, desiredShifts = 2, isReserve = False\<rparr>,
               \<lparr>id_emp = ''r1'', name = ''R1'', preference = Neither, desiredShifts = 0, isReserve = True\<rparr>,
               \<lparr>id_emp = ''r2'', name = ''R2'', preference = Neither, desiredShifts = 0, isReserve = True\<rparr>],
            year = 2026, monthIndex0 = 1, daySlots = 1, nightSlots = 1,
            enforceNoMorningAfterNight = True, weeklyCap = 1, maxStreak = 5,
            spreadEnabled = True, useReservesAuto = False, seedIn = Some 7, hardFill = True\<rparr>"

lemma pHard_run:
  "map_option (\<lambda>out. (length (days out),
                        date (days out ! 6), dayIds (days out ! 6), nightIds (days out ! 6),
                        date (days out ! 7), dayIds (days out ! 7), nightIds (days out ! 7)))
     (generateSchedule pHard 0)
   = Some (28, (2026, 2, 7), [''r2''], [''p1''], (2026, 2, 8), [''p1''], [''r1''])"
  by code_simp

theorem day_night_disjoint_witness:
  "generateSchedule pHard 0 = Some (the (generateSchedule pHard 0))
   \<and> days (the (generateSchedule pHard 0)) ! 7 \<in> set (days (the (generateSchedule pHard 0)))
   \<and> dayIds (days (the (generateSchedule pHard 0)) ! 7) = [''p1'']
   \<and> nightIds (days (the (generateSchedule pHard 0)) ! 7) = [''r1'']
   \<and> set (dayIds (days (the (generateSchedule pHard 0)) ! 7))
       \<inter> set (nightIds (days (the (generateSchedule pHard 0)) ! 7)) = {}"
proof -
  from pHard_run obtain out where o: "generateSchedule pHard 0 = Some out"
    and l: "length (days out) = 28" and d: "dayIds (days out ! 7) = [''p1'']"
    and n: "nightIds (days out ! 7) = [''r1'']"
    by (cases "generateSchedule pHard 0") auto
  from l have m: "days out ! 7 \<in> set (days out)" by simp
  from day_night_disjoint[OF o m] o m d n show ?thesis by simp
qed

section \<open>No morning after night\<close>

text \<open>
  The trackers of the strict pass: what a pool sweep does to \<^verbatim>\<open>lastNightOn\<close>.
\<close>

lemma weightFor_lastNightOn:
  "weightFor p st e sh d u = (w, st1) \<Longrightarrow> lastNightOn st1 = lastNightOn st"
  by (auto simp: weightFor_def split: if_splits prod.splits)

lemma weightsFor_lastNightOn:
  "weightsFor p st es sh d u = (ws, st1) \<Longrightarrow> lastNightOn st1 = lastNightOn st"
proof (induction es arbitrary: st ws st1)
  case Nil
  then show ?case by simp
next
  case (Cons e es)
  obtain w sta where a: "weightFor p st e sh d u = (w, sta)" by (cases "weightFor p st e sh d u")
  obtain ws' stb where b: "weightsFor p sta es sh d u = (ws', stb)"
    by (cases "weightsFor p sta es sh d u")
  from Cons.prems a b have "st1 = stb" by simp
  with Cons.IH[OF b] weightFor_lastNightOn[OF a] show ?case by simp
qed

lemma lastNightOn_updateOnAssign:
  "lastNightOn (updateOnAssign p i dt d sh st)
     = (if sh = NightShift then (lastNightOn st)(i := Some dt) else lastNightOn st)"
  by (simp add: updateOnAssign_def Let_def split: option.splits)

lemma tryLoop_lastNightOn:
  "tryLoop p needed sh day u available st picks dap = (st', picks', dap') \<Longrightarrow>
   \<exists>new. picks' = picks @ new
         \<and> lastNightOn st' = (\<lambda>i. if sh = NightShift \<and> i \<in> set new
                                    then Some (ymd (year p) (monthIndex0 p) day)
                                    else lastNightOn st i)"
proof (induction p needed sh day u available st picks dap arbitrary: st' picks' dap'
       rule: tryLoop.induct)
  case (1 p needed sh day u available st picks dap)
  show ?case
  proof (cases "int (length picks) < needed \<and> available \<noteq> []")
    case False
    with "1.prems" have "st' = st \<and> picks' = picks"
      by (subst (asm) tryLoop.simps) auto
    then show ?thesis by (intro exI[of _ "[]"]) simp
  next
    case True
    obtain weights st1 where w: "weightsFor p st available sh day u = (weights, st1)"
      by (cases "weightsFor p st available sh day u")
    obtain picked s' where r: "randomPickWeighted available weights (seed st1) = (picked, s')"
      by (cases "randomPickWeighted available weights (seed st1)")
    have st1: "lastNightOn st1 = lastNightOn st" by (rule weightsFor_lastNightOn[OF w])
    show ?thesis
    proof (cases picked)
      case None
      with "1.prems" True w r have "st' = st1\<lparr>seed := s'\<rparr> \<and> picks' = picks"
        by (subst (asm) tryLoop.simps) auto
      then show ?thesis using st1 by (intro exI[of _ "[]"]) simp
    next
      case (Some e)
      let ?rest = "filter (\<lambda>x. id_emp x \<noteq> id_emp e) available"
      show ?thesis
      proof (cases "u \<and> assignedCount st1 (id_emp e) \<ge> desiredOf e")
        case skip: True
        with "1.prems" True w r Some
        have "tryLoop p needed sh day u ?rest (st1\<lparr>seed := s'\<rparr>) picks dap = (st', picks', dap')"
          by (subst (asm) tryLoop.simps) auto
        from "1.IH"(1)[OF True w[symmetric] r[symmetric] Some skip this]
        obtain new where "picks' = picks @ new"
          "lastNightOn st' = (\<lambda>i. if sh = NightShift \<and> i \<in> set new
                                   then Some (ymd (year p) (monthIndex0 p) day)
                                   else lastNightOn (st1\<lparr>seed := s'\<rparr>) i)"
          by blast
        then show ?thesis using st1 by (intro exI[of _ new]) (simp cong: if_cong)
      next
        case commit: False
        let ?st2 = "updateOnAssign p (id_emp e) (ymd (year p) (monthIndex0 p) day) day sh
                      (st1\<lparr>seed := s'\<rparr>)"
        from commit "1.prems" True w r Some
        have "tryLoop p needed sh day u ?rest ?st2 (picks @ [id_emp e]) (dap @ [id_emp e])
                = (st', picks', dap')"
          by (subst (asm) tryLoop.simps) auto
        from "1.IH"(2)[OF True w[symmetric] r[symmetric] Some commit this]
        obtain new where n: "picks' = (picks @ [id_emp e]) @ new"
          "lastNightOn st' = (\<lambda>i. if sh = NightShift \<and> i \<in> set new
                                   then Some (ymd (year p) (monthIndex0 p) day)
                                   else lastNightOn ?st2 i)"
          by blast
        show ?thesis
          using n st1
          by (intro exI[of _ "id_emp e # new"]) (auto simp: lastNightOn_updateOnAssign fun_eq_iff)
      qed
    qed
  qed
qed

lemma eligible_day_lastNight:
  "eligible p st e DayShift d dap rl \<Longrightarrow> enforceNoMorningAfterNight p
   \<Longrightarrow> lastNightOn st (id_emp e) \<noteq> Some (ymd (year p) (monthIndex0 p) (d - 1))"
  by (auto simp: eligible_def eligibilityReasons_def split: if_splits)


lemma tryPool_lastNightOn:
  assumes "tryPool p needed sh day pp rp pool (st, picks, dap) = (st', picks', dap')"
  shows "\<exists>new. picks' = picks @ new
           \<and> set new \<subseteq> id_emp ` {e \<in> set pool. eligible p st e sh day dap noRelax}
           \<and> lastNightOn st' = (\<lambda>i. if sh = NightShift \<and> i \<in> set new
                                      then Some (ymd (year p) (monthIndex0 p) day)
                                      else lastNightOn st i)"
proof -
  let ?av = "filter (\<lambda>e. eligible p st e sh day dap noRelax) pool"
  let ?u = "underTargetExists p st (allAllowed p pp rp) sh day dap"
  from assms have t: "tryLoop p needed sh day ?u ?av st picks dap = (st', picks', dap')"
    by (simp add: tryPool_def)
  from tryLoop_new[OF t] obtain new where a: "picks' = picks @ new" "set new \<subseteq> id_emp ` set ?av"
    by blast
  from tryLoop_lastNightOn[OF t] obtain new' where b: "picks' = picks @ new'"
    "lastNightOn st' = (\<lambda>i. if sh = NightShift \<and> i \<in> set new'
                             then Some (ymd (year p) (monthIndex0 p) day)
                             else lastNightOn st i)"
    by blast
  from a b have "new' = new" by simp
  with a b show ?thesis by (intro exI[of _ new]) auto
qed

text \<open>
  What \<^verbatim>\<open>pickShift\<close> does to \<^verbatim>\<open>lastNightOn\<close>: a day shift leaves it as it is and
  picks nobody whose last night shift was the day before; a night shift sets it to today for
  everyone it picks.
\<close>

lemma pickShift_lastNightOn:
  assumes "pickShift p day needed sh pp rp dap st = (st', picks, miss, iss)"
  shows "lastNightOn st' = (\<lambda>i. if sh = NightShift \<and> i \<in> set picks
                                  then Some (ymd (year p) (monthIndex0 p) day)
                                  else lastNightOn st i)
         \<and> (sh = DayShift \<and> enforceNoMorningAfterNight p \<longrightarrow>
              (\<forall>i \<in> set picks. lastNightOn st i \<noteq> Some (ymd (year p) (monthIndex0 p) (day - 1))))"
proof -
  obtain st1 picks1 dap1 where a: "tryPool p needed sh day pp rp pp (st, [], dap) = (st1, picks1, dap1)"
    by (cases "tryPool p needed sh day pp rp pp (st, [], dap)") auto
  from tryPool_lastNightOn[OF a]
  have 1: "set picks1 \<subseteq> id_emp ` {e \<in> set pp. eligible p st e sh day dap noRelax}"
    and 2: "lastNightOn st1 = (\<lambda>i. if sh = NightShift \<and> i \<in> set picks1
                                    then Some (ymd (year p) (monthIndex0 p) day)
                                    else lastNightOn st i)"
    by auto
  have d1: "\<forall>i \<in> set picks1. lastNightOn st i \<noteq> Some (ymd (year p) (monthIndex0 p) (day - 1))"
    if "sh = DayShift" "enforceNoMorningAfterNight p"
    using 1 that by (auto dest: eligible_day_lastNight)
  show ?thesis
  proof (cases "allowReservesInNormalOf p \<and> int (length picks1) < needed")
    case False
    with assms a have "picks = picks1" "st' = st1" by (auto simp: pickShift_def)
    with 2 d1 show ?thesis by simp
  next
    case True
    obtain st2 picks2 dap2 where b: "tryPool p needed sh day pp rp rp (st1, picks1, dap1) = (st2, picks2, dap2)"
      by (cases "tryPool p needed sh day pp rp rp (st1, picks1, dap1)") auto
    from tryPool_lastNightOn[OF b] obtain new where n: "picks2 = picks1 @ new"
      "set new \<subseteq> id_emp ` {e \<in> set rp. eligible p st1 e sh day dap1 noRelax}"
      "lastNightOn st2 = (\<lambda>i. if sh = NightShift \<and> i \<in> set new
                               then Some (ymd (year p) (monthIndex0 p) day)
                               else lastNightOn st1 i)"
      by blast
    from assms a b True have e: "picks = picks2" "st' = st2" by (simp_all add: pickShift_def)
    have d2: "\<forall>i \<in> set new. lastNightOn st i \<noteq> Some (ymd (year p) (monthIndex0 p) (day - 1))"
      if "sh = DayShift" "enforceNoMorningAfterNight p"
    proof
      fix i assume "i \<in> set new"
      with n(2) obtain e where "eligible p st1 e sh day dap1 noRelax" "id_emp e = i" by auto
      with that eligible_day_lastNight[of p st1 e day dap1 noRelax]
      have "lastNightOn st1 i \<noteq> Some (ymd (year p) (monthIndex0 p) (day - 1))" by simp
      moreover from that have "lastNightOn st1 = lastNightOn st" using 2 by simp
      ultimately show "lastNightOn st i \<noteq> Some (ymd (year p) (monthIndex0 p) (day - 1))" by simp
    qed
    have "lastNightOn st2 = (\<lambda>i. if sh = NightShift \<and> i \<in> set picks2
                                 then Some (ymd (year p) (monthIndex0 p) day)
                                 else lastNightOn st i)"
      unfolding n(3) 2 n(1) by (auto simp: fun_eq_iff)
    with d1 d2 e n(1) show ?thesis by auto
  qed
qed

lemma strictDay_lastNightOn:
  assumes "strictDay p d st = (st', r)"
  shows "(\<forall>i \<in> set (nightIds r). lastNightOn st' i = Some (ymd (year p) (monthIndex0 p) d))
         \<and> (enforceNoMorningAfterNight p \<longrightarrow>
              (\<forall>i \<in> set (dayIds r). lastNightOn st i \<noteq> Some (ymd (year p) (monthIndex0 p) (d - 1))))"
proof -
  obtain st1 dpicks dmiss diss where
    a: "pickShift p d (max 0 (daySlots p)) DayShift (primaries p) (reserves p) [] st
          = (st1, dpicks, dmiss, diss)"
    by (cases "pickShift p d (max 0 (daySlots p)) DayShift (primaries p) (reserves p) [] st") auto
  obtain st2 npicks nmiss niss where
    b: "pickShift p d (max 0 (nightSlots p)) NightShift (primaries p) (reserves p) dpicks st1
          = (st2, npicks, nmiss, niss)"
    by (cases "pickShift p d (max 0 (nightSlots p)) NightShift (primaries p) (reserves p) dpicks st1")
       auto
  from assms a b have r: "dayIds r = dpicks" "nightIds r = npicks" "st' = st2"
    by (auto simp: strictDay_def)
  from pickShift_lastNightOn[OF a] pickShift_lastNightOn[OF b] show ?thesis
    by (simp add: r)
qed

text \<open>
  The strict pass alone keeps the rule: over consecutive days, nobody on the night list of
  one row is on the day list of the next.
\<close>

lemma strictPass_no_morning_after_night:
  assumes "enforceNoMorningAfterNight p"
  shows "Suc k < length (snd (strictPass p [a .. b] st)) \<Longrightarrow>
         set (nightIds (snd (strictPass p [a .. b] st) ! k))
           \<inter> set (dayIds (snd (strictPass p [a .. b] st) ! Suc k)) = {}"
proof (induction k arbitrary: a st)
  case 0
  then have ab: "a \<le> b" by (cases "a \<le> b") auto
  obtain st1 r1 where s1: "strictDay p a st = (st1, r1)" by (cases "strictDay p a st")
  obtain st2 rs where s2: "strictPass p [a + 1 .. b] st1 = (st2, rs)"
    by (cases "strictPass p [a + 1 .. b] st1")
  have rows: "snd (strictPass p [a .. b] st) = r1 # rs"
    using ab s1 s2 by (simp add: upto_rec1)
  with 0 have "rs \<noteq> []" by auto
  then have ab2: "a + 1 \<le> b" using s2 by (cases "a + 1 \<le> b") auto
  obtain st3 r2 where s3: "strictDay p (a + 1) st1 = (st3, r2)" by (cases "strictDay p (a + 1) st1")
  have "hd rs = r2" using strictPass_hd[OF ab2, of p st1] s2 s3 by simp
  with \<open>rs \<noteq> []\<close> have r2: "rs ! 0 = r2" by (simp add: hd_conv_nth)
  from strictDay_lastNightOn[OF s1]
  have n: "\<forall>i \<in> set (nightIds r1). lastNightOn st1 i = Some (ymd (year p) (monthIndex0 p) a)"
    by simp
  from strictDay_lastNightOn[OF s3] assms
  have d: "\<forall>i \<in> set (dayIds r2). lastNightOn st1 i \<noteq> Some (ymd (year p) (monthIndex0 p) a)"
    by simp
  from n d show ?case by (auto simp: rows r2)
next
  case (Suc k)
  then have ab: "a \<le> b" by (cases "a \<le> b") auto
  obtain st1 r1 where s1: "strictDay p a st = (st1, r1)" by (cases "strictDay p a st")
  obtain st2 rs where s2: "strictPass p [a + 1 .. b] st1 = (st2, rs)"
    by (cases "strictPass p [a + 1 .. b] st1")
  have rows: "snd (strictPass p [a .. b] st) = r1 # rs"
    using ab s1 s2 by (simp add: upto_rec1)
  from Suc.prems have "Suc k < length (snd (strictPass p [a + 1 .. b] st1))"
    by (simp add: rows s2)
  from Suc.IH[OF this] show ?case by (simp add: rows s2)
qed

lemma strict_no_morning_after_night:
  assumes "enforceNoMorningAfterNight p" and "\<not> hardFill p"
    and "generateSchedule p entropy = Some out" and "Suc k < length (days out)"
  shows "set (nightIds (days out ! k)) \<inter> set (dayIds (days out ! Suc k)) = {}"
proof -
  from assms(2,3) have "days out = snd (strictPass p [1 .. dInM p]
      (initTracking (case seedIn p of Some s \<Rightarrow> s | None \<Rightarrow> entropy)))"
    by (auto simp: generateSchedule_def Let_def)
  with strictPass_no_morning_after_night[OF assms(1), where k = k and a = 1 and b = "dInM p"] assms(4)
  show ?thesis by simp
qed

text \<open>
  C1 (the code departs from the claim). Failing input: the run \<open>pHard\<close> above, with the
  no-morning-after-night rule enabled. The strict pass gives \<open>p1\<close> the day shift of day 8;
  hard fill then fills the night seat of day 7 and chooses \<open>p1\<close>, since the evaluator asks
  only whether the candidate's last night shift was the day before the shift to fill, never
  whether the candidate already holds the day shift of the day after. The returned rows have
  \<open>p1\<close> on the night list of 7 February and on the day list of 8 February, which the claim
  and the source's comments on the hard-fill pass exclude. Without hard fill the rule holds
  (\<open>strict_no_morning_after_night\<close>).
\<close>

theorem morning_after_night_after_hardFill:
  "enforceNoMorningAfterNight pHard
   \<and> map_option (\<lambda>out. (date (days out ! 6), nightIds (days out ! 6),
                          date (days out ! 7), dayIds (days out ! 7)))
        (generateSchedule pHard 0)
     = Some ((2026, 2, 7), [''p1''], (2026, 2, 8), [''p1''])"
  using pHard_run by (cases "generateSchedule pHard 0") (simp_all add: pHard_def)

section \<open>Hard fill and termination\<close>

text \<open>
  A seat is stuck when all three stages of \<^verbatim>\<open>fillSlot\<close> find no candidate and the
  recomputed missing count stays positive. \<^verbatim>\<open>fillSlot\<close> then changes nothing but the
  missing count, so the seat is stuck again, and the \<^verbatim>\<open>while\<close> loop does not end.
\<close>

definition noCandidate :: "'id params \<Rightarrow> nat \<Rightarrow> shift \<Rightarrow> 'id tracking \<times> 'id row list \<Rightarrow> bool" where
  "noCandidate p i sh x =
     (Option.is_none (pickStage p i sh noRelax x)
      \<and> Option.is_none (pickStage p i sh \<lparr>ignoreWeeklyCap = True, ignoreStreak = False\<rparr> x)
      \<and> Option.is_none (pickStage p i sh \<lparr>ignoreWeeklyCap = True, ignoreStreak = True\<rparr> x))"

definition stuckAt :: "'id params \<Rightarrow> nat \<Rightarrow> shift \<Rightarrow> 'id tracking \<times> 'id row list \<Rightarrow> bool" where
  "stuckAt p i sh x =
     (i < length (snd x) \<and> noCandidate p i sh x \<and> 0 < missingOf sh (setMissing p sh (snd x ! i)))"

lemma idsOf_setMissing [simp]: "idsOf sh (setMissing p sh' r) = idsOf sh r"
  by (simp add: idsOf_def setMissing_def)

lemma date_setMissing [simp]: "date (setMissing p sh r) = date r"
  by (simp add: setMissing_def)

lemma setMissing_idem [simp]: "setMissing p sh (setMissing p sh r) = setMissing p sh r"
  by (simp add: setMissing_def)

lemma pickStage_setMissing:
  "i < length rows \<Longrightarrow>
   Option.is_none (pickStage p i sh rl (st, rows[i := setMissing p sh' (rows ! i)]))
     = Option.is_none (pickStage p i sh rl (st, rows))"
  by (simp add: pickStage_def Let_def split: list.splits)

lemma fillSlot_noCandidate:
  "noCandidate p i sh x \<Longrightarrow> fillSlot p i sh x = (fst x, (snd x)[i := setMissing p sh (snd x ! i)])"
  by (cases x) (auto simp: noCandidate_def fillSlot_def Option.is_none_def)

lemma stuckAt_fillSlot:
  assumes "stuckAt p i sh x"
  shows "stuckAt p i sh (fillSlot p i sh x) \<and> 0 < missingOf sh (snd (fillSlot p i sh x) ! i)"
proof -
  obtain st rows where x: "x = (st, rows)" by (cases x)
  from assms have i: "i < length rows" and nc: "noCandidate p i sh x"
    and m: "0 < missingOf sh (setMissing p sh (rows ! i))"
    by (simp_all add: stuckAt_def x)
  have f: "fillSlot p i sh x = (st, rows[i := setMissing p sh (rows ! i)])"
    using fillSlot_noCandidate[OF nc] by (simp add: x)
  have "noCandidate p i sh (st, rows[i := setMissing p sh (rows ! i)])"
    using nc i by (simp add: noCandidate_def x pickStage_setMissing)
  with i m show ?thesis by (simp add: f stuckAt_def)
qed

lemma fillWhile_stuck:
  assumes "stuckAt p i sh x" and "0 < missingOf sh (snd x ! i)"
  shows "fillWhile p i sh x = None"
proof (rule ccontr)
  assume "fillWhile p i sh x \<noteq> None"
  then obtain y where y: "fillWhile p i sh x = Some y" by auto
  have "\<not> (stuckAt p i sh x \<and> 0 < missingOf sh (snd x ! i))"
  proof (rule fillWhile_Some_induct
      [where P = "\<lambda>p i sh x y. \<not> (stuckAt p i sh x \<and> 0 < missingOf sh (snd x ! i))", OF _ y])
    fix f :: "'a params \<Rightarrow> nat \<Rightarrow> shift \<Rightarrow> 'a tracking \<times> 'a row list
              \<Rightarrow> ('a tracking \<times> 'a row list) option"
    fix p i sh x z
    assume ih: "\<And>p i sh x z. f p i sh x = Some z
                  \<Longrightarrow> \<not> (stuckAt p i sh x \<and> 0 < missingOf sh (snd x ! i))"
      and body: "(if 0 < missingOf sh (snd x ! i) then f p i sh (fillSlot p i sh x)
                  else Some x) = Some z"
    show "\<not> (stuckAt p i sh x \<and> 0 < missingOf sh (snd x ! i))"
    proof
      assume s: "stuckAt p i sh x \<and> 0 < missingOf sh (snd x ! i)"
      with body have "f p i sh (fillSlot p i sh x) = Some z" by simp
      from ih[OF this] stuckAt_fillSlot[of p i sh x] s show False by simp
    qed
  qed
  with assms show False by simp
qed

definition pOne :: "string params" where
  "pOne = \<lparr>employees = [\<lparr>id_emp = ''e1'', name = ''A'', preference = Day, desiredShifts = 12, isReserve = False\<rparr>],
          year = 2025, monthIndex0 = 0, daySlots = 1, nightSlots = 1, enforceNoMorningAfterNight = True,
          weeklyCap = 5, maxStreak = 5, spreadEnabled = True, useReservesAuto = False,
          seedIn = Some 42, hardFill = True\<rparr>"

lemma pOne_strict:
  "(let x = strictPass pOne [1 .. dInM pOne] (initTracking 42) in
      snd x \<noteq> [] \<and> \<not> 0 < missingOf DayShift (snd x ! 0)
      \<and> 0 < missingOf NightShift (snd x ! 0) \<and> stuckAt pOne 0 NightShift x)"
  by code_simp

text \<open>
  C3 (the code departs from the claim). Failing input: a roster of one employee, one seat per
  shift, the defaults for the weekly cap and the streak, January 2025, seed 42, hard fill
  enabled. The strict pass puts \<open>e1\<close> on the day shift of day 1 and leaves the night seat
  open. In hard fill all three stages fail for that seat, as \<open>e1\<close> is on the other shift of
  the day; the claim says that the seat stays blank and the call returns, but
  \<^verbatim>\<open>while (row.nightMissing > 0) fillSlot(idx, "night")\<close> runs forever.
\<close>

theorem hardFill_never_returns:
  "noCandidate pOne 0 NightShift (strictPass pOne [1 .. dInM pOne] (initTracking 42))
   \<and> generateSchedule pOne 0 = None"
proof -
  define x where "x = strictPass pOne [1 .. dInM pOne] (initTracking 42)"
  from pOne_strict have ne: "snd x \<noteq> []" and d: "\<not> 0 < missingOf DayShift (snd x ! 0)"
    and n: "0 < missingOf NightShift (snd x ! 0)" and s: "stuckAt pOne 0 NightShift x"
    by (simp_all add: x_def Let_def)
  have "[0 ..< length (snd x)] = 0 # [1 ..< length (snd x)]"
    using ne by (simp add: upt_conv_Cons)
  moreover have "fillWhile pOne 0 DayShift x = Some x"
    using d by (subst fillWhile.simps) simp
  moreover have "fillWhile pOne 0 NightShift x = None"
    by (rule fillWhile_stuck[OF s n])
  ultimately have "hardFillRows pOne [0 ..< length (snd x)] x = None" by simp
  moreover have c: "seedIn pOne = Some 42" "hardFill pOne" by (simp_all add: pOne_def)
  ultimately have "generateSchedule pOne 0 = None"
    using c by (simp add: generateSchedule_def Let_def x_def[symmetric])
  moreover from s have "noCandidate pOne 0 NightShift x" by (simp add: stuckAt_def)
  ultimately show ?thesis by (simp add: x_def)
qed

section \<open>Opposite preference in the strict pass\<close>

lemma strictDay_dayIds:
  "dayIds (snd (strictDay p d st))
     = fst (snd (pickShift p d (max 0 (daySlots p)) DayShift (primaries p) (reserves p) [] st))"
  by (simp add: strictDay_def split: prod.splits)

definition eNight :: "string employee" where
  "eNight = \<lparr>id_emp = ''e2'', name = ''B'', preference = Night, desiredShifts = 10, isReserve = False\<rparr>"

definition pZeroDraw :: "string params" where
  "pZeroDraw = \<lparr>employees = [eNight,
                   \<lparr>id_emp = ''e3'', name = ''C'', preference = Neither, desiredShifts = 10, isReserve = False\<rparr>],
          year = 2025, monthIndex0 = 0, daySlots = 1, nightSlots = 1, enforceNoMorningAfterNight = True,
          weeklyCap = 5, maxStreak = 5, spreadEnabled = True, useReservesAuto = False,
          seedIn = Some 1869465083, hardFill = False\<rparr>"

lemma zeroDraw_day1:
  "fst (snd (pickShift pZeroDraw 1 (max 0 (daySlots pZeroDraw)) DayShift (primaries pZeroDraw)
        (reserves pZeroDraw) [] (initTracking 1869465083))) = [''e2'']"
  by code_simp

lemma dInM_zeroDraw: "dInM pZeroDraw = 31"
  by (simp add: dInM_def pZeroDraw_def daysInMonth_def monthLength_def jsYear_def)

text \<open>
  C8 (the code departs from the claim). Failing input: the roster \<open>e2\<close> (prefers nights),
  \<open>e3\<close> (no preference), one seat per shift, the defaults, January 2025, and the seed
  1869465083, whose third draw is exactly 0. For the day shift of day 1 the weights are 0 for
  \<open>e2\<close> (the first two draws are the jitters) and positive for \<open>e3\<close>; the third draw gives
  the threshold \<open>r = 0\<close>, and \<^verbatim>\<open>randomPickWeighted\<close> returns the first item, since
  \<open>r - 0 \<le> 0\<close>. The claim says that a weight of 0 is never assigned; the strict pass
  assigns \<open>e2\<close> to the day shift.
\<close>

theorem opposite_preference_assigned:
  "preference eNight = Night
   \<and> fst (weightFor pZeroDraw (initTracking 1869465083) eNight DayShift 1 True) = 0
   \<and> fst (rng (snd (rng (snd (rng 1869465083))))) = 0
   \<and> map_option (\<lambda>out. dayIds (hd (days out))) (generateSchedule pZeroDraw 0) = Some [''e2'']"
proof -
  have "prefWeight eNight DayShift = 0" by (simp add: prefWeight_def eNight_def)
  then have w: "fst (weightFor pZeroDraw (initTracking 1869465083) eNight DayShift 1 True) = 0"
    by (simp add: weightFor_def split: prod.splits)
  have z: "fst (rng (snd (rng (snd (rng 1869465083))))) = 0"
    by (simp add: rng_def jsRem_def Let_def)
  have g: "generateSchedule pZeroDraw 0
         = Some \<lparr>days = snd (strictPass pZeroDraw [1 .. dInM pZeroDraw] (initTracking 1869465083)),
                 meta = metaOf pZeroDraw\<rparr>"
    by (simp add: generateSchedule_def pZeroDraw_def)
  have "dayIds (hd (snd (strictPass pZeroDraw [1 .. dInM pZeroDraw] (initTracking 1869465083))))
          = [''e2'']"
    by (simp add: dInM_zeroDraw strictPass_hd strictDay_dayIds zeroDraw_day1)
  with g w z show ?thesis by (simp add: eNight_def)
qed

section \<open>The sequence generator and determinism\<close>

lemma rng_step:
  assumes "0 \<le> s"
  shows "snd (rng s) = (s * 1664525 + 1013904223) mod 4294967296"
    and "fst (rng s) = of_int (snd (rng s)) / 4294967296"
    and "0 \<le> snd (rng s)" and "snd (rng s) < 4294967296"
    and "0 \<le> fst (rng s)" and "fst (rng s) < 1"
proof -
  from assms have nn: "0 \<le> s * 1664525 + 1013904223" by simp
  show next_state: "snd (rng s) = (s * 1664525 + 1013904223) mod 4294967296"
    by (simp add: rng_def Let_def jsRem_nonneg[OF nn])
  show out: "fst (rng s) = of_int (snd (rng s)) / 4294967296" by (simp add: rng_def Let_def)
  show lo: "0 \<le> snd (rng s)" by (simp add: next_state)
  show hi: "snd (rng s) < 4294967296" by (simp add: next_state)
  show "0 \<le> fst (rng s)" using lo by (simp add: out)
  show "fst (rng s) < 1" using hi by (simp add: out)
qed

lemma rngState_range:
  "0 \<le> s \<Longrightarrow> s < 4294967296 \<Longrightarrow> 0 \<le> rngState n s \<and> rngState n s < 4294967296"
proof (induction n)
  case 0
  then show ?case by simp
next
  case (Suc n)
  then have "0 \<le> rngState n s" by simp
  from rng_step(3,4)[OF this] show ?case by simp
qed

text \<open>
  C5, as stated: for every explicit integer seed the stream follows
  \<open>seed = (seed * 1664525 + 1013904223) mod 2 ^ 32\<close> with output \<open>seed / 2 ^ 32\<close>. The seed
  field of the form takes any integer; at the seed -1000 the code's remainder keeps the sign
  of the dividend, so the next state is not the residue modulo \<open>2 ^ 32\<close> and the output is
  negative.
\<close>

theorem rng_negative_seed_counterexample:
  "snd (rng (- 1000)) \<noteq> (- 1000 * 1664525 + 1013904223) mod 4294967296
   \<and> snd (rng (- 1000)) = - 650620777 \<and> fst (rng (- 1000)) < 0"
  by (simp add: rng_def jsRem_def Let_def)

text \<open>
  C5, amended: a run with an explicit seed does not depend on the entropy source, so two runs
  with identical input return identical results; and for every seed in the unsigned 32-bit
  range the stream follows the recurrence: every state stays in that range, the state after a
  draw is \<open>(state * 1664525 + 1013904223) mod 2 ^ 32\<close>, and the number drawn is the new
  state divided by \<open>2 ^ 32\<close>, in \<open>[0, 1)\<close>.
\<close>

theorem generateSchedule_deterministic:
  "(seedIn p = Some s \<longrightarrow> generateSchedule p entropy1 = generateSchedule p entropy2)
   \<and> (0 \<le> s \<and> s < 4294967296 \<longrightarrow>
        snd (rng s) = (s * 1664525 + 1013904223) mod 4294967296
        \<and> fst (rng s) = of_int (snd (rng s)) / 4294967296
        \<and> 0 \<le> snd (rng s) \<and> snd (rng s) < 4294967296
        \<and> 0 \<le> fst (rng s) \<and> fst (rng s) < 1
        \<and> 0 \<le> rngState n s \<and> rngState n s < 4294967296
        \<and> rngState (Suc n) s = (rngState n s * 1664525 + 1013904223) mod 4294967296
        \<and> fst (rng (rngState n s)) = of_int (rngState (Suc n) s) / 4294967296
        \<and> 0 \<le> fst (rng (rngState n s)) \<and> fst (rng (rngState n s)) < 1)"
proof (intro conjI impI)
  assume "seedIn p = Some s"
  then show "generateSchedule p entropy1 = generateSchedule p entropy2"
    by (simp add: generateSchedule_def)
next
  assume range: "0 \<le> s \<and> s < 4294967296"
  then have s: "0 \<le> s" by simp
  show "snd (rng s) = (s * 1664525 + 1013904223) mod 4294967296"
    "fst (rng s) = of_int (snd (rng s)) / 4294967296"
    "0 \<le> snd (rng s)" "snd (rng s) < 4294967296" "0 \<le> fst (rng s)" "fst (rng s) < 1"
    by (rule rng_step[OF s])+
  from range rngState_range[of s n] have n: "0 \<le> rngState n s" and h: "rngState n s < 4294967296"
    by simp_all
  show "0 \<le> rngState n s" by (rule n)
  show "rngState n s < 4294967296" by (rule h)
  show "rngState (Suc n) s = (rngState n s * 1664525 + 1013904223) mod 4294967296"
    using rng_step(1)[OF n] by simp
  show "fst (rng (rngState n s)) = of_int (rngState (Suc n) s) / 4294967296"
    using rng_step(2)[OF n] by simp
  show "0 \<le> fst (rng (rngState n s))" by (rule rng_step(5)[OF n])
  show "fst (rng (rngState n s)) < 1" by (rule rng_step(6)[OF n])
qed

text \<open>
  The run \<open>pZeroDraw\<close> has an explicit seed and draws numbers; \<open>pNoSeed\<close> is the same
  input without the seed. With the seed, the entropy source does not change the result;
  without it, two values of the entropy source give different first rows.
\<close>

definition pNoSeed :: "string params" where
  "pNoSeed = pZeroDraw\<lparr>seedIn := None\<rparr>"

lemma pNoSeed_day1:
  "fst (snd (pickShift pNoSeed 1 (max 0 (daySlots pNoSeed)) DayShift (primaries pNoSeed)
        (reserves pNoSeed) [] (initTracking 1869465083))) = [''e2'']
   \<and> fst (snd (pickShift pNoSeed 1 (max 0 (daySlots pNoSeed)) DayShift (primaries pNoSeed)
        (reserves pNoSeed) [] (initTracking 42))) = [''e3'']"
  by code_simp

lemma first_row_no_hardFill:
  assumes "\<not> hardFill p" and "1 \<le> dInM p"
  shows "map_option (\<lambda>out. dayIds (hd (days out))) (generateSchedule p entropy)
         = Some (fst (snd (pickShift p 1 (max 0 (daySlots p)) DayShift (primaries p) (reserves p) []
                            (initTracking (case seedIn p of Some s \<Rightarrow> s | None \<Rightarrow> entropy)))))"
  using assms by (simp add: generateSchedule_def Let_def strictPass_hd strictDay_dayIds)

theorem generateSchedule_deterministic_witness:
  "seedIn pZeroDraw = Some 1869465083
   \<and> generateSchedule pZeroDraw 42 = generateSchedule pZeroDraw 1869465083
   \<and> map_option (\<lambda>out. dayIds (hd (days out))) (generateSchedule pZeroDraw 42) = Some [''e2'']
   \<and> seedIn pNoSeed = None
   \<and> map_option (\<lambda>out. dayIds (hd (days out))) (generateSchedule pNoSeed 42) = Some [''e3'']
   \<and> map_option (\<lambda>out. dayIds (hd (days out))) (generateSchedule pNoSeed 1869465083) = Some [''e2'']
   \<and> generateSchedule pNoSeed 42 \<noteq> generateSchedule pNoSeed 1869465083
   \<and> (0::int) \<le> 1869465083 \<and> (1869465083::int) < 4294967296
   \<and> snd (rng 1869465083) = 4150723358 \<and> fst (rng 1869465083) = 4150723358 / 4294967296
   \<and> rngState 2 1869465083 = 634785765 \<and> rngState 3 1869465083 = 0
   \<and> fst (rng (rngState 2 1869465083)) = 0"
proof -
  have s: "seedIn pZeroDraw = Some 1869465083" "\<not> hardFill pZeroDraw"
    "seedIn pNoSeed = None" "\<not> hardFill pNoSeed" "dInM pNoSeed = 31"
    by (simp_all add: pNoSeed_def pZeroDraw_def dInM_def daysInMonth_def monthLength_def jsYear_def)
  have r2: "rngState 2 1869465083 = 634785765"
    by (simp add: eval_nat_numeral rng_def jsRem_def Let_def)
  have a: "map_option (\<lambda>out. dayIds (hd (days out))) (generateSchedule pZeroDraw 42) = Some [''e2'']"
    using first_row_no_hardFill[of pZeroDraw 42] zeroDraw_day1 by (simp add: s dInM_zeroDraw)
  have b: "map_option (\<lambda>out. dayIds (hd (days out))) (generateSchedule pNoSeed 42) = Some [''e3'']"
    using first_row_no_hardFill[of pNoSeed 42] pNoSeed_day1 by (simp add: s)
  have c: "map_option (\<lambda>out. dayIds (hd (days out))) (generateSchedule pNoSeed 1869465083)
             = Some [''e2'']"
    using first_row_no_hardFill[of pNoSeed 1869465083] pNoSeed_day1 by (simp add: s)
  from b c have d: "generateSchedule pNoSeed 42 \<noteq> generateSchedule pNoSeed 1869465083"
    by auto
  note t = generateSchedule_deterministic [where p = pZeroDraw and s = 1869465083
      and ?entropy1.0 = 42 and ?entropy2.0 = 1869465083 and n = 2]
  from t s r2 a b c d show ?thesis by simp
qed

end
